theory Spec2Isabelle
  imports Complex_Main "HOL-Library.Char_ord" "HOL-Library.List_Lexorder"
    "HOL-Library.Product_Lexorder"
begin

section \<open>Python values used by the pipeline\<close>

text \<open>
  The exceptions the modelled code can raise. \<open>KeyError\<close> carries the labels that
  were not found, as pandas reports them.
\<close>

datatype py_error = ValueError | IndexError | KeyError "string list"

text \<open>
  A Python float: a finite value, an infinity, or NaN. NaN is also the marker pandas
  uses for an unknown numeric cell. Comparisons with NaN are false.
\<close>

datatype pyfloat = Finite real | PosInf | NegInf | NaN

fun float_ge :: "pyfloat \<Rightarrow> pyfloat \<Rightarrow> bool" where
  "float_ge NaN y = False"
| "float_ge x NaN = False"
| "float_ge PosInf y = True"
| "float_ge x NegInf = True"
| "float_ge NegInf y = False"
| "float_ge x PosInf = False"
| "float_ge (Finite a) (Finite b) = (b \<le> a)"

fun float_lt :: "pyfloat \<Rightarrow> pyfloat \<Rightarrow> bool" where
  "float_lt NaN y = False"
| "float_lt x NaN = False"
| "float_lt PosInf y = False"
| "float_lt x NegInf = False"
| "float_lt NegInf y = True"
| "float_lt x PosInf = True"
| "float_lt (Finite a) (Finite b) = (a < b)"

fun float_eq :: "pyfloat \<Rightarrow> pyfloat \<Rightarrow> bool" where
  "float_eq (Finite a) (Finite b) = (a = b)"
| "float_eq PosInf PosInf = True"
| "float_eq NegInf NegInf = True"
| "float_eq x y = False"

subsection \<open>Strings\<close>

text \<open>
  A character is a code point below 256. Among these \<open>str.strip\<close> removes the
  code points 9 to 13, 28 to 32, 133 and 160.
\<close>

definition py_isspace :: "char \<Rightarrow> bool" where
  "py_isspace c =
     (let n = (of_char c :: nat)
      in (9 \<le> n \<and> n \<le> 13) \<or> (28 \<le> n \<and> n \<le> 32) \<or> n = 133 \<or> n = 160)"

definition py_strip :: "string \<Rightarrow> string" where
  "py_strip s = rev (dropWhile py_isspace (rev (dropWhile py_isspace s)))"

text \<open>
  \<open>str.upper\<close> is used only to compare the start of a name with a prefix. It maps
  a to z onto A to Z. A code point from 128 on is turned into text with no character of
  any prefix (the sharp s becomes SS, the others stay above 127), so the comparison gives
  the same answer when such a code point is left as it is.
\<close>

definition upper_char :: "char \<Rightarrow> char" where
  "upper_char c =
     (let n = (of_char c :: nat) in if 97 \<le> n \<and> n \<le> 122 then char_of (n - 32) else c)"

definition py_upper :: "string \<Rightarrow> string" where
  "py_upper s = map upper_char s"

definition py_startswith :: "string \<Rightarrow> string \<Rightarrow> bool" where
  "py_startswith s p = (take (length p) s = p)"

text \<open>The decimal digits 0 to 9.\<close>

definition digit_char :: "char \<Rightarrow> bool" where
  "digit_char c = (let n = (of_char c :: nat) in 48 \<le> n \<and> n \<le> 57)"

text \<open>
  \<open>str.isdigit\<close> holds of a non-empty string of digits; besides 0 to 9 the
  superscripts two, three and one (code points 178, 179 and 185) count as digits.
\<close>

definition isdigit_char :: "char \<Rightarrow> bool" where
  "isdigit_char c =
     (let n = (of_char c :: nat) in (48 \<le> n \<and> n \<le> 57) \<or> n = 178 \<or> n = 179 \<or> n = 185)"

definition py_isdigit :: "string \<Rightarrow> bool" where
  "py_isdigit s = (s \<noteq> [] \<and> list_all isdigit_char s)"

definition digits_value :: "string \<Rightarrow> nat" where
  "digits_value s = foldl (\<lambda>n c. 10 * n + (of_char c - 48)) 0 s"

text \<open>
  \<open>int(s)\<close> on a string that passed \<open>isdigit\<close>. It returns the value of a string
  of decimal digits that is no longer than the interpreter's limit of 4300 digits, leading
  zeros counted, and raises \<open>ValueError\<close> on a longer one and on one with a
  superscript digit. The normalizer calls \<open>int\<close> only behind its \<open>isdigit\<close>
  test, so the signs, blanks and underscores that \<open>int\<close> also reads are never passed.
\<close>

definition max_str_digits :: nat where
  "max_str_digits = 4300"

definition int_accepts :: "string \<Rightarrow> bool" where
  "int_accepts s = (s \<noteq> [] \<and> list_all digit_char s \<and> length s \<le> max_str_digits)"

definition py_int :: "string \<Rightarrow> py_error + nat" where
  "py_int s = (if int_accepts s then Inr (digits_value s) else Inl ValueError)"

text \<open>
  \<open>str(n)\<close> of a non-negative integer: its decimal digits. The integers the code
  prints have at most 4300 digits, so the limit on printing is never reached.
\<close>

function py_str :: "nat \<Rightarrow> string" where
  "py_str n =
     (if n < 10 then [char_of (48 + n)]
      else py_str (n div 10) @ [char_of (48 + n mod 10)])"
  by pat_completeness auto
termination
  by (relation "measure id") auto

declare py_str.simps [simp del]

text \<open>\<open>str(i)\<close> of an integer.\<close>

definition str_int :: "int \<Rightarrow> string" where
  "str_int i = (if i < 0 then CHR ''-'' # py_str (nat (- i)) else py_str (nat i))"

text \<open>\<open>s.split(sep)\<close> for a one-character separator, and \<open>sep.join(parts)\<close>.\<close>

fun py_split :: "char \<Rightarrow> string \<Rightarrow> string list" where
  "py_split sep [] = [[]]"
| "py_split sep (c # cs) =
     (if c = sep then [] # py_split sep cs
      else (case py_split sep cs of [] \<Rightarrow> [[c]] | p # ps \<Rightarrow> (c # p) # ps))"

fun py_join :: "string \<Rightarrow> string list \<Rightarrow> string" where
  "py_join sep [] = []"
| "py_join sep [p] = p"
| "py_join sep (p # q # ps) = p @ sep @ py_join sep (q # ps)"

text \<open>\<open>Series.astype(str)\<close> on a text cell: a missing cell becomes the text nan.\<close>

definition astype_str :: "string option \<Rightarrow> string" where
  "astype_str cell = (case cell of None \<Rightarrow> ''nan'' | Some s \<Rightarrow> s)"

text \<open>
  \<open>Series.map(d).fillna(original)\<close> on one cell: a missing cell stays missing, a
  value found in the dictionary is replaced, any other value is kept.
\<close>

definition map_fillna :: "(string \<times> string) list \<Rightarrow> string option \<Rightarrow> string option" where
  "map_fillna d cell =
     (case cell of
        None \<Rightarrow> None
      | Some s \<Rightarrow> (case map_of d s of None \<Rightarrow> Some s | Some v \<Rightarrow> Some v))"

section \<open>The data model\<close>

text \<open>
  One row of a standard-format table. A text cell is \<open>None\<close> when the cell is
  missing (pandas reads an empty CSV cell as NaN); a numeric cell is a float, NaN when
  unknown.
\<close>

record canonical_record =
  mission :: "string option"
  object_name :: "string option"
  disposition :: "string option"
  period :: pyfloat
  planet_radius :: pyfloat
  star_temp :: pyfloat
  star_radius :: pyfloat
  star_mass :: pyfloat
  discovery_facility :: "string option"

text \<open>
  One row of the prediction table, with its index label. A table read from a file has
  the labels 0, 1, 2 and so on.
\<close>

record prediction =
  index_label :: int
  pred_object_name :: "string option"
  predicted_probability :: pyfloat

text \<open>
  The table of archival data as the matcher receives it: the column labels it has, and
  its rows. A cell of a row under a label the table does not have is not part of the
  table. When neither archive file exists the table has no column and no row.
\<close>

record data_frame =
  data_columns :: "string list"
  data_rows :: "canonical_record list"

text \<open>
  One entry of \<open>matched_data\<close>: a dictionary from column labels to cells, given by
  the labels it has and the cells under them.
\<close>

record row_dict =
  dict_keys :: "string list"
  dict_cells :: canonical_record

text \<open>
  A raw mission table as read from a CSV file: the column labels it has, and its rows.
  A row gives the cell under a label; only the labels of \<open>columns\<close> are read.
\<close>

record raw_row =
  text_at :: "string \<Rightarrow> string option"
  num_at :: "string \<Rightarrow> pyfloat"

record raw_table =
  columns :: "string list"
  rows :: "raw_row list"

section \<open>Identifier normalizer (generate\_final\_output.py)\<close>

definition prefixes :: "string list" where
  "prefixes = [''K'', ''KOI-'', ''KOI '', ''TOI-'', ''TOI '', ''EPIC '', ''EPIC-'']"

text \<open>The loop over the prefixes, with its \<open>break\<close> at the first one that matches.\<close>

fun remove_prefix :: "string list \<Rightarrow> string \<Rightarrow> string" where
  "remove_prefix [] name = name"
| "remove_prefix (prefix # rest) name =
     (if py_startswith (py_upper name) (py_upper prefix) then drop (length prefix) name
      else remove_prefix rest name)"

text \<open>
  The block that rewrites the part before the first point: split at every point,
  replace \<open>parts[0]\<close> by \<open>str(int(parts[0]))\<close> when it is all digits, join again.
\<close>

definition remove_leading_zeros :: "string \<Rightarrow> py_error + string" where
  "remove_leading_zeros name =
     (if CHR ''.'' \<in> set name then
        (case py_split CHR ''.'' name of
           [] \<Rightarrow> Inl IndexError
         | head # tail \<Rightarrow>
             (if py_isdigit head then
                (case py_int head of
                   Inl e \<Rightarrow> Inl e
                 | Inr n \<Rightarrow> Inr (py_join ''.'' (py_str n # tail)))
              else Inr (py_join ''.'' (head # tail))))
      else Inr name)"

definition normalize_object_name :: "string option \<Rightarrow> py_error + string" where
  "normalize_object_name name =
     (case name of
        None \<Rightarrow> Inr ''''
      | Some raw \<Rightarrow>
          (case remove_leading_zeros (remove_prefix prefixes (py_strip raw)) of
             Inl e \<Rightarrow> Inl e
           | Inr name' \<Rightarrow> Inr (py_strip name')))"

text \<open>The key of a name once the normalizer has returned.\<close>

definition canonical_key :: "string option \<Rightarrow> string" where
  "canonical_key name = (case normalize_object_name name of Inl e \<Rightarrow> [] | Inr k \<Rightarrow> k)"

text \<open>
  The reading of the normalizer's second step in the specification's words: leading
  zeros are taken off a digit string, and a string of zeros keeps one.
\<close>

definition spec_strip_zeros :: "string \<Rightarrow> string" where
  "spec_strip_zeros head =
     (case dropWhile (\<lambda>c. c = CHR ''0'') head of [] \<Rightarrow> ''0'' | c # cs \<Rightarrow> c # cs)"

text \<open>
  In the specification's words a prefix is matched without regard to case: a text is a
  case variant of a prefix when it has, at every place, the character of the prefix or
  the small letter of a capital letter there.
\<close>

definition spec_same_letter :: "char \<Rightarrow> char \<Rightarrow> bool" where
  "spec_same_letter a b =
     (a = b \<or>
      (65 \<le> (of_char b :: nat) \<and> (of_char b :: nat) \<le> 90 \<and>
       (of_char a :: nat) = of_char b + 32))"

definition spec_case_variant :: "string \<Rightarrow> string \<Rightarrow> bool" where
  "spec_case_variant q prefix = list_all2 spec_same_letter q prefix"

text \<open>
  The heads on which the normalizer raises: those that pass \<open>isdigit\<close> and that
  \<open>int\<close> does not accept.
\<close>

definition head_raises :: "string \<Rightarrow> bool" where
  "head_raises head = (py_isdigit head \<and> \<not> int_accepts head)"

text \<open>Whether a text begins with one of the prefixes, compared as the loop compares.\<close>

definition begins_with_prefix :: "string \<Rightarrow> bool" where
  "begins_with_prefix name =
     list_ex (\<lambda>prefix. py_startswith (py_upper name) (py_upper prefix)) prefixes"

text \<open>Whether a text begins with a character that \<open>strip\<close> removes.\<close>

definition begins_with_space :: "string \<Rightarrow> bool" where
  "begins_with_space name = (case name of [] \<Rightarrow> False | c # cs \<Rightarrow> py_isspace c)"

section \<open>Prediction matcher (generate\_final\_output.py)\<close>

text \<open>\<open>Series.apply(normalize_object_name)\<close>: the first exception ends the call.\<close>

fun apply_normalize :: "string option list \<Rightarrow> py_error + string list" where
  "apply_normalize [] = Inr []"
| "apply_normalize (name # names) =
     (case normalize_object_name name of
        Inl e \<Rightarrow> Inl e
      | Inr k \<Rightarrow>
          (case apply_normalize names of Inl e \<Rightarrow> Inl e | Inr ks \<Rightarrow> Inr (k # ks)))"

text \<open>
  The loop that fills \<open>data_lookup\<close>. Each row comes with its \<open>normalized_name\<close>;
  a row is entered when that name is not empty and not yet a key.
\<close>

fun build_lookup ::
  "(string \<rightharpoonup> canonical_record) \<Rightarrow> (canonical_record \<times> string) list \<Rightarrow>
   (string \<rightharpoonup> canonical_record)" where
  "build_lookup data_lookup [] = data_lookup"
| "build_lookup data_lookup ((row, norm_name) # rest) =
     build_lookup
       (if norm_name \<noteq> [] \<and> data_lookup norm_name = None
        then data_lookup(norm_name \<mapsto> row) else data_lookup)
       rest"

definition predicted_disposition :: "pyfloat \<Rightarrow> pyfloat \<Rightarrow> string" where
  "predicted_disposition prob threshold =
     (if float_ge prob threshold then ''CONFIRMED'' else ''FALSE POSITIVE'')"

definition placeholder :: "int \<Rightarrow> string \<Rightarrow> canonical_record" where
  "placeholder idx disp =
     \<lparr>mission = Some ''ARCHIVE'',
      object_name = Some (''PLANET_'' @ str_int idx),
      disposition = Some disp,
      period = NaN, planet_radius = NaN, star_temp = NaN, star_radius = NaN,
      star_mass = NaN,
      discovery_facility = Some ''UNKNOWN''\<rparr>"

definition column_order :: "string list" where
  "column_order =
     [''mission'', ''object_name'', ''disposition'', ''period'', ''planet_radius'',
      ''star_temp'', ''star_radius'', ''star_mass'', ''discovery_facility'']"

text \<open>
  The loop over the predictions; the result is \<open>matched_data\<close>. A matched entry is
  the dictionary of the archival row, which has the columns of the archival table and
  \<open>normalized_name\<close>, with \<open>disposition\<close> set. An unmatched entry has the nine
  columns, and its name is made from the index label of the prediction.
\<close>

fun match_rows ::
  "(string \<rightharpoonup> canonical_record) \<Rightarrow> pyfloat \<Rightarrow> string list \<Rightarrow>
   (prediction \<times> string) list \<Rightarrow> row_dict list" where
  "match_rows data_lookup threshold labels [] = []"
| "match_rows data_lookup threshold labels ((pred_row, norm_name) # rest) =
     (let disp = predicted_disposition (predicted_probability pred_row) threshold
      in (case data_lookup norm_name of
            Some data_row \<Rightarrow>
              \<lparr>dict_keys = labels @ [''normalized_name'', ''disposition''],
               dict_cells = data_row\<lparr>disposition := Some disp\<rparr>\<rparr>
          | None \<Rightarrow>
              \<lparr>dict_keys = column_order,
               dict_cells = placeholder (index_label pred_row) disp\<rparr>)
         # match_rows data_lookup threshold labels rest)"

text \<open>
  A row of the table built from \<open>matched_data\<close>, read at the nine columns: a cell the
  dictionary does not have is NaN.
\<close>

definition select_columns :: "row_dict \<Rightarrow> canonical_record" where
  "select_columns d =
     (let has = (\<lambda>label. label \<in> set (dict_keys d)); r = dict_cells d
      in \<lparr>mission = (if has ''mission'' then mission r else None),
          object_name = (if has ''object_name'' then object_name r else None),
          disposition = (if has ''disposition'' then disposition r else None),
          period = (if has ''period'' then period r else NaN),
          planet_radius = (if has ''planet_radius'' then planet_radius r else NaN),
          star_temp = (if has ''star_temp'' then star_temp r else NaN),
          star_radius = (if has ''star_radius'' then star_radius r else NaN),
          star_mass = (if has ''star_mass'' then star_mass r else NaN),
          discovery_facility =
            (if has ''discovery_facility'' then discovery_facility r else None)\<rparr>)"

text \<open>
  \<open>pd.DataFrame(matched_data)[column_order]\<close>: the table has the labels of all the
  dictionaries, and selecting a label it does not have raises \<open>KeyError\<close>. An empty
  \<open>matched_data\<close> gives a table with no column at all.
\<close>

definition final_table :: "row_dict list \<Rightarrow> py_error + canonical_record list" where
  "final_table matched_data =
     (let frame_columns = concat (map dict_keys matched_data);
          missing = filter (\<lambda>label. label \<notin> set frame_columns) column_order
      in if missing \<noteq> [] then Inl (KeyError missing)
         else Inr (map select_columns matched_data))"

text \<open>
  The matcher. The names of the predictions are normalized first; then the column
  \<open>object_name\<close> of the archival table is read, which raises \<open>KeyError\<close> when the
  table does not have it, and its names are normalized.
\<close>

definition match_predictions_with_data ::
  "prediction list \<Rightarrow> data_frame \<Rightarrow> pyfloat \<Rightarrow> py_error + canonical_record list" where
  "match_predictions_with_data predictions all_data threshold =
     (case apply_normalize (map pred_object_name predictions) of
        Inl e \<Rightarrow> Inl e
      | Inr pred_names \<Rightarrow>
          (if ''object_name'' \<notin> set (data_columns all_data)
           then Inl (KeyError [''object_name''])
           else
             (case apply_normalize (map object_name (data_rows all_data)) of
                Inl e \<Rightarrow> Inl e
              | Inr data_names \<Rightarrow>
                  (let data_lookup =
                         build_lookup Map.empty (zip (data_rows all_data) data_names);
                       matched_data =
                         match_rows data_lookup threshold (data_columns all_data)
                           (zip predictions pred_names)
                   in final_table matched_data))))"

text \<open>The entries the matcher collects, once both columns of names are normalized.\<close>

definition matched_rows :: "prediction list \<Rightarrow> data_frame \<Rightarrow> pyfloat \<Rightarrow> row_dict list" where
  "matched_rows predictions all_data threshold =
     match_rows
       (build_lookup Map.empty
          (zip (data_rows all_data) (map canonical_key (map object_name (data_rows all_data)))))
       threshold (data_columns all_data)
       (zip predictions (map canonical_key (map pred_object_name predictions)))"

text \<open>Every name of a column is one the normalizer returns on.\<close>

definition names_normalize :: "string option list \<Rightarrow> bool" where
  "names_normalize names =
     list_all (\<lambda>name. case normalize_object_name name of Inl e \<Rightarrow> False | Inr k \<Rightarrow> True) names"

text \<open>
  Inputs on which nothing is missing: there is a prediction, the archival table has the
  nine columns, and the normalizer returns on every name of both tables.
\<close>

definition complete_inputs :: "prediction list \<Rightarrow> data_frame \<Rightarrow> bool" where
  "complete_inputs predictions all_data =
     (predictions \<noteq> [] \<and>
      list_all (\<lambda>label. label \<in> set (data_columns all_data)) column_order \<and>
      names_normalize (map pred_object_name predictions) \<and>
      names_normalize (map object_name (data_rows all_data)))"

section \<open>Schema mappers (convert\_to\_standard\_format.py)\<close>

text \<open>\<open>df[label]\<close> raises \<open>KeyError\<close> for a label the table does not have.\<close>

definition first_missing :: "raw_table \<Rightarrow> string list \<Rightarrow> string option" where
  "first_missing df labels = find (\<lambda>label. label \<notin> set (columns df)) labels"

text \<open>\<open>df[label] if label in df.columns else pd.NA\<close>, read at one row.\<close>

definition optional_column :: "raw_table \<Rightarrow> string \<Rightarrow> raw_row \<Rightarrow> pyfloat" where
  "optional_column df label row = (if label \<in> set (columns df) then num_at row label else NaN)"

definition convert_kepler_to_standard :: "raw_table \<Rightarrow> py_error + canonical_record list" where
  "convert_kepler_to_standard df =
     (case first_missing df
             [''kepoi_name'', ''koi_disposition'', ''koi_period'', ''koi_prad'',
              ''koi_steff'', ''koi_srad'', ''koi_smass''] of
        Some label \<Rightarrow> Inl (KeyError [label])
      | None \<Rightarrow>
          Inr (map (\<lambda>row.
                 \<lparr>mission = Some ''Kepler'',
                  object_name = text_at row ''kepoi_name'',
                  disposition = text_at row ''koi_disposition'',
                  period = num_at row ''koi_period'',
                  planet_radius = num_at row ''koi_prad'',
                  star_temp = num_at row ''koi_steff'',
                  star_radius = num_at row ''koi_srad'',
                  star_mass = num_at row ''koi_smass'',
                  discovery_facility = Some ''Kepler''\<rparr>) (rows df)))"

definition disposition_map :: "(string \<times> string) list" where
  "disposition_map =
     [(''CP'', ''CANDIDATE''), (''FP'', ''FALSE POSITIVE''), (''PC'', ''CANDIDATE''),
      (''APC'', ''CANDIDATE''), (''KP'', ''CONFIRMED'')]"

definition convert_tess_to_standard :: "raw_table \<Rightarrow> py_error + canonical_record list" where
  "convert_tess_to_standard df =
     (case first_missing df [''toi'', ''tfopwg_disp''] of
        Some label \<Rightarrow> Inl (KeyError [label])
      | None \<Rightarrow>
          Inr (map (\<lambda>row.
                 \<lparr>mission = Some ''TESS'',
                  object_name = Some (astype_str (text_at row ''toi'')),
                  disposition = map_fillna disposition_map (text_at row ''tfopwg_disp''),
                  period = optional_column df ''pl_orbper'' row,
                  planet_radius = optional_column df ''pl_rade'' row,
                  star_temp = optional_column df ''st_teff'' row,
                  star_radius = optional_column df ''st_rad'' row,
                  star_mass = optional_column df ''st_mass'' row,
                  discovery_facility = Some ''TESS''\<rparr>) (rows df)))"

definition convert_k2_to_standard :: "raw_table \<Rightarrow> py_error + canonical_record list" where
  "convert_k2_to_standard df =
     (let name_label =
            (if ''epic_name'' \<in> set (columns df) then ''epic_name'' else ''epic_candname'')
      in (case first_missing df [name_label, ''k2c_disp''] of
            Some label \<Rightarrow> Inl (KeyError [label])
          | None \<Rightarrow>
              Inr (map (\<lambda>row.
                     \<lparr>mission = Some ''K2'',
                      object_name = text_at row name_label,
                      disposition = text_at row ''k2c_disp'',
                      period = optional_column df ''pl_orbper'' row,
                      planet_radius = optional_column df ''pl_rade'' row,
                      star_temp = optional_column df ''st_teff'' row,
                      star_radius = optional_column df ''st_rad'' row,
                      star_mass = optional_column df ''st_mass'' row,
                      discovery_facility = Some ''K2''\<rparr>) (rows df))))"

section \<open>Disposition reconciler and deduplication (tests/script.py)\<close>

definition disposition_mapping :: "string \<Rightarrow> (string \<times> string) list" where
  "disposition_mapping mission_tag =
     (if mission_tag = ''TESS'' then
        [(''PC'', ''CANDIDATE''), (''CP'', ''CONFIRMED''), (''KP'', ''CONFIRMED''),
         (''FP'', ''FALSE POSITIVE''), (''APC'', ''CANDIDATE''), (''FA'', ''FALSE POSITIVE''),
         (''NTP'', ''FALSE POSITIVE''), (''EB'', ''FALSE POSITIVE''),
         (''IS'', ''FALSE POSITIVE''), (''V'', ''FALSE POSITIVE''),
         (''BEB'', ''FALSE POSITIVE'')]
      else if mission_tag = ''Kepler'' then
        [(''CONFIRMED'', ''CONFIRMED''), (''FALSE POSITIVE'', ''FALSE POSITIVE''),
         (''CANDIDATE'', ''CANDIDATE'')]
      else if mission_tag = ''K2'' then
        [(''C'', ''CONFIRMED''), (''K'', ''CONFIRMED''), (''F'', ''FALSE POSITIVE''),
         (''P'', ''CANDIDATE''), (''U'', ''CANDIDATE'')]
      else
        [(''CONFIRMED'', ''CONFIRMED''), (''PLANET'', ''CONFIRMED''),
         (''FALSE POSITIVE'', ''FALSE POSITIVE''), (''FP'', ''FALSE POSITIVE''),
         (''CANDIDATE'', ''CANDIDATE''), (''BINARY'', ''FALSE POSITIVE''),
         (''VARIABLE'', ''FALSE POSITIVE'')])"

text \<open>
  \<open>normalize_disposition_extended\<close> on the disposition column of a table: every cell
  is turned into text and uppercased, then mapped, and a value the mapping does not have
  keeps its uppercased text.
\<close>

definition normalize_disposition_extended ::
  "string option list \<Rightarrow> string \<Rightarrow> string option list" where
  "normalize_disposition_extended df mission_tag =
     map (\<lambda>cell. map_fillna (disposition_mapping mission_tag)
                    (Some (py_upper (astype_str cell)))) df"

text \<open>The priority column: a disposition outside the three gets no priority (NaN).\<close>

definition priority :: "string option \<Rightarrow> nat option" where
  "priority disp =
     (case disp of
        None \<Rightarrow> None
      | Some d \<Rightarrow> map_of [(''CONFIRMED'', 1), (''CANDIDATE'', 2), (''FALSE POSITIVE'', 3)] d)"

text \<open>
  The key of \<open>sort_values(['object_name', 'priority'])\<close>: ascending in both columns,
  a missing value after every present one.
\<close>

definition name_key :: "canonical_record \<Rightarrow> nat \<times> string" where
  "name_key r = (case object_name r of None \<Rightarrow> (1, []) | Some s \<Rightarrow> (0, s))"

definition priority_key :: "canonical_record \<Rightarrow> nat \<times> nat" where
  "priority_key r = (case priority (disposition r) of None \<Rightarrow> (1, 0) | Some p \<Rightarrow> (0, p))"

definition sort_columns :: "canonical_record \<Rightarrow> (nat \<times> string) \<times> (nat \<times> nat)" where
  "sort_columns r = (name_key r, priority_key r)"

text \<open>\<open>drop_duplicates(subset=['object_name'], keep='first')\<close>.\<close>

fun drop_duplicates :: "string option list \<Rightarrow> canonical_record list \<Rightarrow> canonical_record list" where
  "drop_duplicates seen [] = []"
| "drop_duplicates seen (r # rs) =
     (if object_name r \<in> set seen then drop_duplicates seen rs
      else r # drop_duplicates (object_name r # seen) rs)"

text \<open>The deduplication step of \<open>main_fixed_fetch\<close>.\<close>

definition smart_deduplication :: "canonical_record list \<Rightarrow> canonical_record list" where
  "smart_deduplication all_data = drop_duplicates [] (sort_key sort_columns all_data)"

section \<open>Digits, splitting and joining\<close>

lemma digit_char_roundtrip:
  "digit_char c \<Longrightarrow> char_of (48 + (of_char c - 48 :: nat)) = c"
  by (simp add: digit_char_def Let_def)

lemma digit_char_le: "digit_char c \<Longrightarrow> (of_char c :: nat) - 48 \<le> 9"
  unfolding digit_char_def Let_def by arith

lemma char_of_48: "char_of (48 :: nat) = CHR ''0''"
  by code_simp

lemma digit_char_nonzero:
  "digit_char c \<Longrightarrow> c \<noteq> CHR ''0'' \<Longrightarrow> 0 < (of_char c :: nat) - 48"
proof -
  assume d: "digit_char c" and nz: "c \<noteq> CHR ''0''"
  have "(of_char c :: nat) \<noteq> 48"
  proof
    assume "(of_char c :: nat) = 48"
    then have "char_of (of_char c :: nat) = (char_of (48 :: nat) :: char)" by simp
    then have "c = CHR ''0''" by (simp add: char_of_48)
    with nz show False by simp
  qed
  with d show ?thesis by (simp add: digit_char_def Let_def)
qed

lemma digit_char_isdigit: "digit_char c \<Longrightarrow> isdigit_char c"
  by (simp add: digit_char_def isdigit_char_def Let_def)

lemma int_accepts_isdigit: "int_accepts s \<Longrightarrow> py_isdigit s"
  by (auto simp: int_accepts_def py_isdigit_def list_all_iff digit_char_isdigit)

lemma digits_value_snoc:
  "digits_value (s @ [c]) = 10 * digits_value s + (of_char c - 48)"
  by (simp add: digits_value_def)

lemma digits_value_zero: "digits_value (CHR ''0'' # s) = digits_value s"
  by (simp add: digits_value_def)

lemma digits_value_dropWhile:
  "digits_value (dropWhile (\<lambda>c. c = CHR ''0'') s) = digits_value s"
  by (induction s) (simp_all add: digits_value_zero)

lemma py_str_small: "n < 10 \<Longrightarrow> py_str n = [char_of (48 + n)]"
  by (simp add: py_str.simps)

lemma py_str_step:
  "0 < m \<Longrightarrow> d \<le> 9 \<Longrightarrow> py_str (10 * m + d) = py_str m @ [char_of (48 + d)]"
  by (subst py_str.simps) simp

lemma py_str_canonical:
  "list_all digit_char d \<Longrightarrow> d \<noteq> [] \<Longrightarrow> hd d \<noteq> CHR ''0'' \<Longrightarrow>
   py_str (digits_value d) = d \<and> 0 < digits_value d"
proof (induction d rule: rev_induct)
  case Nil
  then show ?case by simp
next
  case (snoc x xs)
  from snoc.prems(1) have dx: "digit_char x" and dxs: "list_all digit_char xs" by simp_all
  show ?case
  proof (cases "xs = []")
    case True
    with snoc.prems(3) have "x \<noteq> CHR ''0''" by simp
    with dx have pos: "0 < (of_char x :: nat) - 48" by (rule digit_char_nonzero)
    have "digits_value [x] = of_char x - 48" by (simp add: digits_value_def)
    with True pos digit_char_le [OF dx] digit_char_roundtrip [OF dx]
    show ?thesis by (simp add: py_str_small)
  next
    case False
    with snoc.prems(3) have "hd xs \<noteq> CHR ''0''" by simp
    with snoc.IH dxs False have ih: "py_str (digits_value xs) = xs" "0 < digits_value xs"
      by simp_all
    show ?thesis
      using ih digit_char_le [OF dx] digit_char_roundtrip [OF dx]
      by (simp add: digits_value_snoc py_str_step)
  qed
qed

lemma spec_strip_zeros_Nil:
  "dropWhile (\<lambda>c. c = CHR ''0'') h = [] \<Longrightarrow> spec_strip_zeros h = ''0''"
  by (simp add: spec_strip_zeros_def del: dropWhile_eq_Nil_conv)

lemma spec_strip_zeros_Cons:
  "dropWhile (\<lambda>c. c = CHR ''0'') h = c # cs \<Longrightarrow> spec_strip_zeros h = c # cs"
  by (simp add: spec_strip_zeros_def)

lemma py_str_digits_value:
  assumes "list_all digit_char head"
  shows "py_str (digits_value head) = spec_strip_zeros head"
proof (cases "dropWhile (\<lambda>c. c = CHR ''0'') head")
  case Nil
  have "digits_value (dropWhile (\<lambda>c. c = CHR ''0'') head) = digits_value head"
    by (rule digits_value_dropWhile)
  then have "digits_value head = 0" unfolding Nil by (simp add: digits_value_def)
  then show ?thesis
    by (simp add: spec_strip_zeros_Nil [OF Nil] py_str_small char_of_48)
next
  case (Cons c cs)
  have "list_all digit_char (dropWhile (\<lambda>c. c = CHR ''0'') head)"
    using assms set_dropWhileD [of _ "\<lambda>c. c = CHR ''0''" head]
    by (auto simp: list_all_iff)
  moreover have "hd (dropWhile (\<lambda>c. c = CHR ''0'') head) \<noteq> CHR ''0''"
    using Cons hd_dropWhile [of "\<lambda>c. c = CHR ''0''" head] by simp
  ultimately have "py_str (digits_value (c # cs)) = c # cs"
    using Cons py_str_canonical [of "c # cs"] by simp
  then show ?thesis
    using digits_value_dropWhile [of head]
    by (simp add: spec_strip_zeros_Cons [OF Cons] Cons)
qed

lemma py_split_not_Nil: "py_split sep s \<noteq> []"
  by (induction s) (auto split: list.splits)

lemma py_join_split: "py_join [sep] (py_split sep s) = s"
proof (induction s)
  case Nil
  then show ?case by simp
next
  case (Cons c cs)
  obtain p ps where ps: "py_split sep cs = p # ps"
    using py_split_not_Nil [of sep cs] by (cases "py_split sep cs") auto
  show ?case
  proof (cases "c = sep")
    case True
    with Cons ps show ?thesis by simp
  next
    case False
    with Cons ps show ?thesis by (cases ps) auto
  qed
qed

lemma py_split_head:
  "sep \<notin> set h \<Longrightarrow> py_split sep (h @ sep # t) = h # py_split sep t"
  by (induction h) auto

lemma py_join_head:
  "py_join [sep] (h # py_split sep t) = h @ sep # t"
proof -
  obtain p ps where ps: "py_split sep t = p # ps"
    using py_split_not_Nil [of sep t] by (cases "py_split sep t") auto
  have "py_join [sep] (p # ps) = t" using py_join_split [of sep t] ps by simp
  then show ?thesis by (simp add: ps)
qed

lemma digits_no_point: "list_all digit_char h \<Longrightarrow> CHR ''.'' \<notin> set h"
  by (auto simp: list_all_iff digit_char_def Let_def)

section \<open>When the normalizer returns\<close>

lemma remove_leading_zeros_no_point:
  "CHR ''.'' \<notin> set r \<Longrightarrow> remove_leading_zeros r = Inr r"
  by (simp add: remove_leading_zeros_def)

lemma remove_leading_zeros_point:
  assumes "CHR ''.'' \<notin> set h"
  shows "remove_leading_zeros (h @ CHR ''.'' # t) =
     (if head_raises h then Inl ValueError
      else Inr ((if py_isdigit h then spec_strip_zeros h else h) @ CHR ''.'' # t))"
proof (cases "py_isdigit h")
  case False
  with assms show ?thesis
    by (simp add: remove_leading_zeros_def py_split_head py_join_head head_raises_def)
next
  case True
  show ?thesis
  proof (cases "int_accepts h")
    case acc: True
    then have "py_str (digits_value h) = spec_strip_zeros h"
      by (intro py_str_digits_value) (simp add: int_accepts_def)
    with assms True acc show ?thesis
      by (simp add: remove_leading_zeros_def py_split_head py_join_head head_raises_def
          py_int_def)
  next
    case False
    with assms True show ?thesis
      by (simp add: remove_leading_zeros_def py_split_head head_raises_def py_int_def)
  qed
qed

text \<open>The text before the first point, and a text with a point taken apart there.\<close>

lemma split_at_point:
  assumes "CHR ''.'' \<in> set r"
  shows "\<exists>t. r = takeWhile (\<lambda>c. c \<noteq> CHR ''.'') r @ CHR ''.'' # t"
proof -
  have "r = takeWhile (\<lambda>c. c \<noteq> CHR ''.'') r @ dropWhile (\<lambda>c. c \<noteq> CHR ''.'') r" by simp
  moreover have "dropWhile (\<lambda>c. c \<noteq> CHR ''.'') r \<noteq> []" using assms by auto
  moreover have "hd (dropWhile (\<lambda>c. c \<noteq> CHR ''.'') r) = CHR ''.''"
    using hd_dropWhile [of "\<lambda>c. c \<noteq> CHR ''.''" r] \<open>dropWhile (\<lambda>c. c \<noteq> CHR ''.'') r \<noteq> []\<close>
    by auto
  ultimately show ?thesis
    by (metis list.collapse)
qed

lemma takeWhile_no_point: "CHR ''.'' \<notin> set (takeWhile (\<lambda>c. c \<noteq> CHR ''.'') r)"
  by (auto dest: set_takeWhileD)

lemma remove_leading_zeros_raises:
  "(remove_leading_zeros r = Inl e) =
     (e = ValueError \<and> CHR ''.'' \<in> set r \<and> head_raises (takeWhile (\<lambda>c. c \<noteq> CHR ''.'') r))"
proof (cases "CHR ''.'' \<in> set r")
  case False
  then show ?thesis by (simp add: remove_leading_zeros_no_point)
next
  case True
  then obtain t where r: "r = takeWhile (\<lambda>c. c \<noteq> CHR ''.'') r @ CHR ''.'' # t"
    using split_at_point by blast
  have "remove_leading_zeros (takeWhile (\<lambda>c. c \<noteq> CHR ''.'') r @ CHR ''.'' # t) =
     (if head_raises (takeWhile (\<lambda>c. c \<noteq> CHR ''.'') r) then Inl ValueError
      else Inr ((if py_isdigit (takeWhile (\<lambda>c. c \<noteq> CHR ''.'') r)
                 then spec_strip_zeros (takeWhile (\<lambda>c. c \<noteq> CHR ''.'') r)
                 else takeWhile (\<lambda>c. c \<noteq> CHR ''.'') r) @ CHR ''.'' # t))"
    by (rule remove_leading_zeros_point [OF takeWhile_no_point])
  then show ?thesis using True r by (auto split: if_splits)
qed

lemma normalize_raises:
  "(normalize_object_name name = Inl e) =
     (\<exists>raw. name = Some raw \<and> e = ValueError \<and>
        CHR ''.'' \<in> set (remove_prefix prefixes (py_strip raw)) \<and>
        head_raises (takeWhile (\<lambda>c. c \<noteq> CHR ''.'') (remove_prefix prefixes (py_strip raw))))"
proof (cases name)
  case None
  then show ?thesis by (simp add: normalize_object_name_def)
next
  case (Some raw)
  have "(normalize_object_name (Some raw) = Inl e) =
      (remove_leading_zeros (remove_prefix prefixes (py_strip raw)) = Inl e)"
    by (simp add: normalize_object_name_def split: sum.splits)
  with Some show ?thesis by (simp add: remove_leading_zeros_raises)
qed

lemma normalize_only_ValueError: "normalize_object_name name = Inl e \<Longrightarrow> e = ValueError"
  by (auto simp: normalize_raises)

lemma normalize_key: "normalize_object_name name = Inr k \<Longrightarrow> canonical_key name = k"
  by (simp add: canonical_key_def)

lemma normalize_returns_key:
  "(\<exists>k. normalize_object_name name = Inr k) \<Longrightarrow>
   normalize_object_name name = Inr (canonical_key name)"
  by (auto simp: canonical_key_def)

lemma names_normalize_iff:
  "names_normalize names = (\<forall>name\<in>set names. \<exists>k. normalize_object_name name = Inr k)"
proof -
  have "(case normalize_object_name name of Inl e \<Rightarrow> False | Inr k \<Rightarrow> True) =
      (\<exists>k. normalize_object_name name = Inr k)" for name
    by (cases "normalize_object_name name") simp_all
  then show ?thesis by (simp add: names_normalize_def list_all_iff)
qed

lemma apply_normalize_Inr:
  "apply_normalize names = Inr ks \<Longrightarrow> ks = map canonical_key names \<and> names_normalize names"
proof (induction names arbitrary: ks)
  case Nil
  then show ?case by (simp add: names_normalize_def)
next
  case (Cons n ns)
  from Cons.prems obtain k ks' where k: "normalize_object_name n = Inr k"
    and rest: "apply_normalize ns = Inr ks'" and ks: "ks = k # ks'"
    by (auto split: sum.splits)
  from Cons.IH [OF rest] k ks show ?case
    by (simp add: names_normalize_def normalize_key)
qed

lemma apply_normalize_returns:
  "names_normalize names \<Longrightarrow> apply_normalize names = Inr (map canonical_key names)"
proof (induction names)
  case Nil
  then show ?case by simp
next
  case (Cons n ns)
  from Cons.prems obtain k where k: "normalize_object_name n = Inr k"
    and ns: "names_normalize ns"
    by (auto simp: names_normalize_def split: sum.splits)
  from Cons.IH [OF ns] k show ?case by (simp add: normalize_key)
qed

section \<open>The matcher's lookup and its loop\<close>

text \<open>
  The lookup holds, under a key that is not empty, the first row that has the key; a
  key already present before the loop is kept.
\<close>

lemma build_lookup_find:
  "build_lookup m rws k =
     (case m k of
        Some r \<Rightarrow> Some r
      | None \<Rightarrow> (if k = [] then None else map_option fst (find (\<lambda>p. snd p = k) rws)))"
proof (induction rws arbitrary: m)
  case Nil
  then show ?case by (simp split: option.splits)
next
  case (Cons p rws)
  obtain r n where p: "p = (r, n)" by (cases p)
  show ?case unfolding p by (auto simp: Cons.IH split: option.splits)
qed


lemma find_zip_map:
  "map_option fst (find (\<lambda>p. snd p = k) (zip rs (map f rs))) = find (\<lambda>r. f r = k) rs"
  by (induction rs) auto

lemma data_lookup_eq:
  "build_lookup Map.empty (zip rs (map f rs)) k =
     (if k = [] then None else find (\<lambda>r. f r = k) rs)"
  by (simp add: build_lookup_find find_zip_map)

lemma find_first_index:
  assumes "j < length xs" and "P (xs ! j)" and "\<forall>j'<j. \<not> P (xs ! j')"
  shows "find P xs = Some (xs ! j)"
  using assms by (auto simp: find_Some_iff)

lemma length_match_rows: "length (match_rows lk t labels ps) = length ps"
  by (induction ps) (auto simp: Let_def)

lemma nth_match_rows:
  "i < length ps \<Longrightarrow>
   match_rows lk t labels ps ! i =
     (let disp = predicted_disposition (predicted_probability (fst (ps ! i))) t
      in case lk (snd (ps ! i)) of
           Some data_row \<Rightarrow>
             \<lparr>dict_keys = labels @ [''normalized_name'', ''disposition''],
              dict_cells = data_row\<lparr>disposition := Some disp\<rparr>\<rparr>
         | None \<Rightarrow>
             \<lparr>dict_keys = column_order,
              dict_cells = placeholder (index_label (fst (ps ! i))) disp\<rparr>)"
proof (induction ps arbitrary: i)
  case Nil
  then show ?case by simp
next
  case (Cons p ps)
  obtain q n where p: "p = (q, n)" by (cases p)
  show ?case
  proof (cases i)
    case 0
    then show ?thesis by (simp add: p Let_def split: option.splits)
  next
    case (Suc j)
    with Cons.prems have "j < length ps" by simp
    from Cons.IH [OF this] Suc show ?thesis
      by (simp add: p Let_def split: option.splits)
  qed
qed

lemma length_matched_rows:
  "length (matched_rows predictions all_data threshold) = length predictions"
  by (simp add: matched_rows_def length_match_rows)

lemma matched_rows_nth:
  assumes "i < length predictions"
  shows "matched_rows predictions all_data threshold ! i =
     (let k = canonical_key (pred_object_name (predictions ! i));
          disp = predicted_disposition (predicted_probability (predictions ! i)) threshold
      in case (if k = [] then None
               else find (\<lambda>r. canonical_key (object_name r) = k) (data_rows all_data)) of
           Some data_row \<Rightarrow>
             \<lparr>dict_keys = data_columns all_data @ [''normalized_name'', ''disposition''],
              dict_cells = data_row\<lparr>disposition := Some disp\<rparr>\<rparr>
         | None \<Rightarrow>
             \<lparr>dict_keys = column_order,
              dict_cells = placeholder (index_label (predictions ! i)) disp\<rparr>)"
proof -
  let ?ps = "zip predictions (map canonical_key (map pred_object_name predictions))"
  have len: "i < length ?ps" using assms by simp
  have lk: "build_lookup Map.empty
        (zip (data_rows all_data) (map canonical_key (map object_name (data_rows all_data)))) k =
      (if k = [] then None
       else find (\<lambda>r. canonical_key (object_name r) = k) (data_rows all_data))" for k
    using data_lookup_eq [of "data_rows all_data" "\<lambda>r. canonical_key (object_name r)" k]
    by (simp add: comp_def)
  show ?thesis
    unfolding matched_rows_def nth_match_rows [OF len] lk
    using assms by (simp add: Let_def cong: option.case_cong)
qed

lemma select_placeholder:
  "select_columns \<lparr>dict_keys = column_order, dict_cells = placeholder idx disp\<rparr> =
     placeholder idx disp"
  by (simp add: select_columns_def column_order_def placeholder_def Let_def)

lemma select_disposition:
  "disposition
     (select_columns \<lparr>dict_keys = labels @ [''normalized_name'', ''disposition''],
                      dict_cells = r\<lparr>disposition := Some disp\<rparr>\<rparr>) = Some disp"
  by (simp add: select_columns_def Let_def)

lemma select_complete:
  assumes "list_all (\<lambda>label. label \<in> set labels) column_order"
  shows "select_columns \<lparr>dict_keys = labels @ [''normalized_name'', ''disposition''],
                         dict_cells = r\<rparr> = r"
  using assms by (simp add: select_columns_def column_order_def Let_def)

lemma placeholder_disposition: "disposition (placeholder idx disp) = Some disp"
  by (simp add: placeholder_def)

lemma matched_rows_disposition:
  assumes "i < length predictions"
  shows "disposition (select_columns (matched_rows predictions all_data threshold ! i)) =
     Some (predicted_disposition (predicted_probability (predictions ! i)) threshold)"
  unfolding matched_rows_nth [OF assms]
  by (simp add: Let_def select_placeholder select_disposition placeholder_disposition
      split: option.splits)

section \<open>When the matcher returns\<close>

lemma final_table_Nil: "final_table [] = Inl (KeyError column_order)"
  by (simp add: final_table_def column_order_def)

lemma final_table_Inr:
  "final_table md = Inr out \<Longrightarrow> out = map select_columns md \<and> md \<noteq> []"
  by (cases "md = []") (auto simp: final_table_Nil, auto simp: final_table_def Let_def split: if_splits)

lemma final_table_returns:
  assumes "d \<in> set md" and "list_all (\<lambda>label. label \<in> set (dict_keys d)) column_order"
  shows "final_table md = Inr (map select_columns md)"
proof -
  have "filter (\<lambda>label. label \<notin> set (concat (map dict_keys md))) column_order = []"
    using assms by (auto simp: filter_empty_conv list_all_iff)
  then show ?thesis by (simp add: final_table_def Let_def)
qed

lemma final_table_not_all_missing:
  assumes "d \<in> set md" and "''object_name'' \<in> set (dict_keys d)"
  shows "final_table md \<noteq> Inl (KeyError column_order)"
proof
  assume "final_table md = Inl (KeyError column_order)"
  then have "filter (\<lambda>label. label \<notin> set (concat (map dict_keys md))) column_order
      = column_order"
    by (simp add: final_table_def Let_def split: if_splits)
  then have "\<forall>label\<in>set column_order. label \<notin> set (concat (map dict_keys md))"
    by (simp add: filter_id_conv)
  moreover have "''object_name'' \<in> set column_order" by (simp add: column_order_def)
  ultimately show False using assms by auto
qed

lemma match_unfold:
  "match_predictions_with_data predictions all_data threshold =
     (if \<not> names_normalize (map pred_object_name predictions) then Inl ValueError
      else if ''object_name'' \<notin> set (data_columns all_data)
        then Inl (KeyError [''object_name''])
      else if \<not> names_normalize (map object_name (data_rows all_data)) then Inl ValueError
      else final_table (matched_rows predictions all_data threshold))"
proof -
  have fails: "\<exists>n\<in>set names. normalize_object_name n = Inl ValueError"
    if "\<not> names_normalize names" for names
  proof -
    from that obtain n where n: "n \<in> set names"
      and "\<not> (\<exists>k. normalize_object_name n = Inr k)"
      by (auto simp: names_normalize_iff)
    then obtain e where "normalize_object_name n = Inl e"
      by (cases "normalize_object_name n") auto
    then have "normalize_object_name n = Inl ValueError"
      using normalize_only_ValueError by blast
    with n show ?thesis by blast
  qed
  have raise: "apply_normalize names = Inl ValueError" if "\<not> names_normalize names" for names
    using that
  proof (induction names)
    case Nil
    then show ?case by (simp add: names_normalize_def)
  next
    case (Cons n ns)
    show ?case
    proof (cases "normalize_object_name n")
      case (Inl e)
      then have "e = ValueError" by (rule normalize_only_ValueError)
      with Inl show ?thesis by simp
    next
      case (Inr k)
      with Cons.prems have "\<not> names_normalize ns" by (simp add: names_normalize_def)
      from Cons.IH [OF this] Inr show ?thesis by simp
    qed
  qed
  show ?thesis
    by (simp add: match_predictions_with_data_def raise apply_normalize_returns
        matched_rows_def Let_def)
qed

lemma match_Inr:
  assumes "match_predictions_with_data predictions all_data threshold = Inr out"
  shows "out = map select_columns (matched_rows predictions all_data threshold)"
    and "predictions \<noteq> []"
    and "length out = length predictions"
proof -
  from assms have ft: "final_table (matched_rows predictions all_data threshold) = Inr out"
    by (simp add: match_unfold split: if_splits)
  from final_table_Inr [OF ft]
  show out: "out = map select_columns (matched_rows predictions all_data threshold)"
    and "predictions \<noteq> []"
    using length_matched_rows [of predictions all_data threshold] by auto
  from out show "length out = length predictions" by (simp add: length_matched_rows)
qed

lemma match_nth:
  assumes "match_predictions_with_data predictions all_data threshold = Inr out"
    and "i < length predictions"
  shows "out ! i = select_columns (matched_rows predictions all_data threshold ! i)"
  using match_Inr(1) [OF assms(1)] assms(2) by (simp add: length_matched_rows)

lemma matched_rows_keys:
  assumes "i < length predictions"
  shows "list_all (\<lambda>label. label \<in> set (data_columns all_data)) column_order \<longrightarrow>
     list_all (\<lambda>label. label \<in> set (dict_keys (matched_rows predictions all_data threshold ! i)))
       column_order"
  unfolding matched_rows_nth [OF assms]
  by (auto simp: Let_def list_all_iff split: option.splits)

lemma match_returns_complete:
  assumes "complete_inputs predictions all_data"
  shows "match_predictions_with_data predictions all_data threshold =
     Inr (map select_columns (matched_rows predictions all_data threshold))"
proof -
  from assms have ne: "predictions \<noteq> []"
    and cols: "list_all (\<lambda>label. label \<in> set (data_columns all_data)) column_order"
    and pn: "names_normalize (map pred_object_name predictions)"
    and dn: "names_normalize (map object_name (data_rows all_data))"
    by (simp_all add: complete_inputs_def)
  from cols have on: "''object_name'' \<in> set (data_columns all_data)"
    by (simp add: column_order_def)
  let ?md = "matched_rows predictions all_data threshold"
  from ne have i0: "0 < length predictions" by simp
  then have "?md ! 0 \<in> set ?md" by (simp add: length_matched_rows)
  moreover have "list_all (\<lambda>label. label \<in> set (dict_keys (?md ! 0))) column_order"
    using matched_rows_keys [OF i0] cols by blast
  ultimately have "final_table ?md = Inr (map select_columns ?md)"
    by (rule final_table_returns)
  with pn on dn show ?thesis by (simp add: match_unfold)
qed


lemma float_lt_not_ge: "float_lt p t \<Longrightarrow> \<not> float_ge p t"
  by (cases p; cases t) auto

lemma float_eq_ge: "float_eq p t \<Longrightarrow> float_ge p t"
  by (cases p; cases t) auto

text \<open>Keys of the names used in the examples below.\<close>

lemma key_711_03: "normalize_object_name (Some ''711.03'') = Inr ''711.03''"
  by code_simp

lemma key_K00711_03: "normalize_object_name (Some ''K00711.03'') = Inr ''711.03''"
  by code_simp

lemma key_0711_03: "normalize_object_name (Some ''0711.03'') = Inr ''711.03''"
  by code_simp

lemma key_999_99: "normalize_object_name (Some ''999.99'') = Inr ''999.99''"
  by code_simp



lemma py_str_1: "py_str (Suc 0) = ''1''"
  by code_simp


lemma str_int_0: "str_int 0 = ''0''"
  by code_simp

lemma all_columns: "list_all (\<lambda>label. label \<in> set column_order) column_order"
  by (simp add: list_all_iff)

section \<open>The threshold rule\<close>

text \<open>
  Claim C3. Whenever the matcher returns a table, the row of every prediction has
  disposition CONFIRMED when the probability is at least the threshold and FALSE POSITIVE
  when it is below, and a probability equal to the threshold gives CONFIRMED; this holds
  for every threshold. On complete inputs the matcher does return such a table.
\<close>

theorem threshold_rule:
  assumes "i < length predictions"
  shows "(\<forall>out. match_predictions_with_data predictions all_data threshold = Inr out \<longrightarrow>
       (float_ge (predicted_probability (predictions ! i)) threshold \<longrightarrow>
          disposition (out ! i) = Some ''CONFIRMED'') \<and>
       (float_lt (predicted_probability (predictions ! i)) threshold \<longrightarrow>
          disposition (out ! i) = Some ''FALSE POSITIVE'') \<and>
       (float_eq (predicted_probability (predictions ! i)) threshold \<longrightarrow>
          disposition (out ! i) = Some ''CONFIRMED'')) \<and>
     (complete_inputs predictions all_data \<longrightarrow>
       (\<exists>out. match_predictions_with_data predictions all_data threshold = Inr out \<and>
          (float_ge (predicted_probability (predictions ! i)) threshold \<longrightarrow>
             disposition (out ! i) = Some ''CONFIRMED'') \<and>
          (float_lt (predicted_probability (predictions ! i)) threshold \<longrightarrow>
             disposition (out ! i) = Some ''FALSE POSITIVE'') \<and>
          (float_eq (predicted_probability (predictions ! i)) threshold \<longrightarrow>
             disposition (out ! i) = Some ''CONFIRMED'')))"
proof -
  have rule: "(float_ge (predicted_probability (predictions ! i)) threshold \<longrightarrow>
          disposition (out ! i) = Some ''CONFIRMED'') \<and>
       (float_lt (predicted_probability (predictions ! i)) threshold \<longrightarrow>
          disposition (out ! i) = Some ''FALSE POSITIVE'') \<and>
       (float_eq (predicted_probability (predictions ! i)) threshold \<longrightarrow>
          disposition (out ! i) = Some ''CONFIRMED'')"
    if run: "match_predictions_with_data predictions all_data threshold = Inr out" for out
  proof -
    have "disposition (out ! i) =
        Some (predicted_disposition (predicted_probability (predictions ! i)) threshold)"
      by (simp add: match_nth [OF run assms] matched_rows_disposition [OF assms])
    then show ?thesis
      using float_lt_not_ge float_eq_ge by (auto simp: predicted_disposition_def)
  qed
  have returns: "\<exists>out. match_predictions_with_data predictions all_data threshold = Inr out"
    if "complete_inputs predictions all_data"
    using match_returns_complete [OF that] by blast
  show ?thesis using rule returns by blast
qed

theorem threshold_rule_witness:
  "\<exists>out. match_predictions_with_data
       [\<lparr>index_label = 0, pred_object_name = Some ''711.03'',
         predicted_probability = Finite (1/2)\<rparr>,
        \<lparr>index_label = 1, pred_object_name = Some ''999.99'',
         predicted_probability = Finite (2/5)\<rparr>]
       \<lparr>data_columns = column_order, data_rows = []\<rparr> (Finite (1/2)) = Inr out \<and>
     disposition (out ! 0) = Some ''CONFIRMED'' \<and>
     disposition (out ! 1) = Some ''FALSE POSITIVE''"
proof -
  let ?ps = "[\<lparr>index_label = 0, pred_object_name = Some ''711.03'',
         predicted_probability = Finite (1/2)\<rparr>,
        \<lparr>index_label = 1, pred_object_name = Some ''999.99'',
         predicted_probability = Finite (2/5)\<rparr>]"
  let ?df = "\<lparr>data_columns = column_order, data_rows = []\<rparr>"
  have a: "0 < length ?ps" and b: "1 < length ?ps" by simp_all
  have c: "complete_inputs ?ps ?df"
    by (simp add: complete_inputs_def all_columns names_normalize_def key_711_03 key_999_99)
  from threshold_rule [OF a, of ?df "Finite (1/2)"] c
  obtain out where run: "match_predictions_with_data ?ps ?df (Finite (1/2)) = Inr out"
    and d0: "disposition (out ! 0) = Some ''CONFIRMED''"
    by auto
  from threshold_rule [OF b, of ?df "Finite (1/2)"] run
  have "disposition (out ! 1) = Some ''FALSE POSITIVE''" by auto
  with run d0 show ?thesis by blast
qed

section \<open>Matched predictions\<close>

text \<open>
  Claim C4. Let the key of a prediction be not empty and let \<open>j\<close> be the first position
  of the archival table whose row has that key. Whenever the matcher returns a table, the
  row of the prediction has the predicted disposition, and under every other column the
  archival table has it has the cell of that archival row; when the archival table has the
  nine columns it is that archival row with only its disposition replaced. Rows further
  down with the same key play no part. On complete inputs the matcher does return.
\<close>

theorem matched_record_copied:
  assumes "i < length predictions"
    and "normalize_object_name (pred_object_name (predictions ! i)) = Inr k"
    and "k \<noteq> []"
    and "j < length (data_rows all_data)"
    and "normalize_object_name (object_name (data_rows all_data ! j)) = Inr k"
    and "\<forall>j'<j. normalize_object_name (object_name (data_rows all_data ! j')) \<noteq> Inr k"
  shows "(\<forall>out. match_predictions_with_data predictions all_data threshold = Inr out \<longrightarrow>
       disposition (out ! i) =
         Some (predicted_disposition (predicted_probability (predictions ! i)) threshold) \<and>
       (''mission'' \<in> set (data_columns all_data) \<longrightarrow>
          mission (out ! i) = mission (data_rows all_data ! j)) \<and>
       object_name (out ! i) = object_name (data_rows all_data ! j) \<and>
       (''period'' \<in> set (data_columns all_data) \<longrightarrow>
          period (out ! i) = period (data_rows all_data ! j)) \<and>
       (''planet_radius'' \<in> set (data_columns all_data) \<longrightarrow>
          planet_radius (out ! i) = planet_radius (data_rows all_data ! j)) \<and>
       (''star_temp'' \<in> set (data_columns all_data) \<longrightarrow>
          star_temp (out ! i) = star_temp (data_rows all_data ! j)) \<and>
       (''star_radius'' \<in> set (data_columns all_data) \<longrightarrow>
          star_radius (out ! i) = star_radius (data_rows all_data ! j)) \<and>
       (''star_mass'' \<in> set (data_columns all_data) \<longrightarrow>
          star_mass (out ! i) = star_mass (data_rows all_data ! j)) \<and>
       (''discovery_facility'' \<in> set (data_columns all_data) \<longrightarrow>
          discovery_facility (out ! i) = discovery_facility (data_rows all_data ! j)) \<and>
       (list_all (\<lambda>label. label \<in> set (data_columns all_data)) column_order \<longrightarrow>
          out ! i = (data_rows all_data ! j)
            \<lparr>disposition :=
               Some (predicted_disposition (predicted_probability (predictions ! i))
                       threshold)\<rparr>)) \<and>
     (complete_inputs predictions all_data \<longrightarrow>
       (\<exists>out. match_predictions_with_data predictions all_data threshold = Inr out \<and>
          out ! i = (data_rows all_data ! j)
            \<lparr>disposition :=
               Some (predicted_disposition (predicted_probability (predictions ! i))
                       threshold)\<rparr>))"
proof -
  let ?row = "data_rows all_data ! j"
  let ?disp = "predicted_disposition (predicted_probability (predictions ! i)) threshold"
  let ?d = "\<lparr>dict_keys = data_columns all_data @ [''normalized_name'', ''disposition''],
             dict_cells = ?row\<lparr>disposition := Some ?disp\<rparr>\<rparr>"
  have key: "canonical_key (pred_object_name (predictions ! i)) = k"
    using assms(2) by (rule normalize_key)
  have rowkey: "canonical_key (object_name ?row) = k"
    using assms(5) by (rule normalize_key)
  have earlier: "canonical_key (object_name (data_rows all_data ! j')) \<noteq> k" if "j' < j" for j'
  proof
    assume eq: "canonical_key (object_name (data_rows all_data ! j')) = k"
    with assms(3) obtain k' where
      "normalize_object_name (object_name (data_rows all_data ! j')) = Inr k'"
      by (cases "normalize_object_name (object_name (data_rows all_data ! j'))")
        (auto simp: canonical_key_def)
    with eq have "normalize_object_name (object_name (data_rows all_data ! j')) = Inr k"
      by (simp add: canonical_key_def)
    with assms(6) that show False by blast
  qed
  have "find (\<lambda>r. canonical_key (object_name r) = k) (data_rows all_data) = Some ?row"
    using assms(4) rowkey earlier by (intro find_first_index) simp_all
  then have entry: "matched_rows predictions all_data threshold ! i = ?d"
    using assms(3) key by (simp add: matched_rows_nth [OF assms(1)] Let_def)
  have part: "disposition (out ! i) = Some ?disp \<and>
       (''mission'' \<in> set (data_columns all_data) \<longrightarrow> mission (out ! i) = mission ?row) \<and>
       object_name (out ! i) = object_name ?row \<and>
       (''period'' \<in> set (data_columns all_data) \<longrightarrow> period (out ! i) = period ?row) \<and>
       (''planet_radius'' \<in> set (data_columns all_data) \<longrightarrow>
          planet_radius (out ! i) = planet_radius ?row) \<and>
       (''star_temp'' \<in> set (data_columns all_data) \<longrightarrow>
          star_temp (out ! i) = star_temp ?row) \<and>
       (''star_radius'' \<in> set (data_columns all_data) \<longrightarrow>
          star_radius (out ! i) = star_radius ?row) \<and>
       (''star_mass'' \<in> set (data_columns all_data) \<longrightarrow>
          star_mass (out ! i) = star_mass ?row) \<and>
       (''discovery_facility'' \<in> set (data_columns all_data) \<longrightarrow>
          discovery_facility (out ! i) = discovery_facility ?row) \<and>
       (list_all (\<lambda>label. label \<in> set (data_columns all_data)) column_order \<longrightarrow>
          out ! i = ?row\<lparr>disposition := Some ?disp\<rparr>)"
    if run: "match_predictions_with_data predictions all_data threshold = Inr out" for out
  proof -
    have o: "out ! i = select_columns ?d"
      by (simp add: match_nth [OF run assms(1)] entry)
    have on: "''object_name'' \<in> set (data_columns all_data)"
      using run by (simp add: match_unfold split: if_splits)
    have full: "out ! i = ?row\<lparr>disposition := Some ?disp\<rparr>"
      if "list_all (\<lambda>label. label \<in> set (data_columns all_data)) column_order"
      unfolding o by (rule select_complete [OF that])
    show ?thesis
      using on full by (simp add: o select_columns_def Let_def)
  qed
  have returns: "\<exists>out. match_predictions_with_data predictions all_data threshold = Inr out \<and>
          out ! i = ?row\<lparr>disposition := Some ?disp\<rparr>"
    if c: "complete_inputs predictions all_data"
  proof -
    from match_returns_complete [OF c] obtain out where
      run: "match_predictions_with_data predictions all_data threshold = Inr out" by blast
    from c have "list_all (\<lambda>label. label \<in> set (data_columns all_data)) column_order"
      by (simp add: complete_inputs_def)
    with part [OF run] run show ?thesis by blast
  qed
  show ?thesis using part returns by blast
qed

theorem matched_record_copied_witness:
  "\<exists>out. match_predictions_with_data
       [\<lparr>index_label = 0, pred_object_name = Some ''711.03'',
         predicted_probability = Finite (9/10)\<rparr>]
       \<lparr>data_columns = column_order,
        data_rows =
          [\<lparr>mission = Some ''Kepler'', object_name = Some ''K00711.03'',
            disposition = Some ''CANDIDATE'', period = Finite (249/2),
            planet_radius = Finite 2, star_temp = Finite 5497, star_radius = Finite 1,
            star_mass = Finite 1, discovery_facility = Some ''Kepler''\<rparr>,
           \<lparr>mission = Some ''TESS'', object_name = Some ''0711.03'',
            disposition = Some ''FALSE POSITIVE'', period = Finite 3,
            planet_radius = Finite 4, star_temp = Finite 5000, star_radius = Finite 2,
            star_mass = Finite 2, discovery_facility = Some ''TESS''\<rparr>]\<rparr>
       (Finite (1/2)) = Inr out \<and>
     out ! 0 =
       \<lparr>mission = Some ''Kepler'', object_name = Some ''K00711.03'',
        disposition = Some ''CONFIRMED'', period = Finite (249/2), planet_radius = Finite 2,
        star_temp = Finite 5497, star_radius = Finite 1, star_mass = Finite 1,
        discovery_facility = Some ''Kepler''\<rparr>"
proof -
  let ?ps = "[\<lparr>index_label = 0, pred_object_name = Some ''711.03'',
         predicted_probability = Finite (9/10)\<rparr>]"
  let ?df = "\<lparr>data_columns = column_order,
        data_rows =
          [\<lparr>mission = Some ''Kepler'', object_name = Some ''K00711.03'',
            disposition = Some ''CANDIDATE'', period = Finite (249/2),
            planet_radius = Finite 2, star_temp = Finite 5497, star_radius = Finite 1,
            star_mass = Finite 1, discovery_facility = Some ''Kepler''\<rparr>,
           \<lparr>mission = Some ''TESS'', object_name = Some ''0711.03'',
            disposition = Some ''FALSE POSITIVE'', period = Finite 3,
            planet_radius = Finite 4, star_temp = Finite 5000, star_radius = Finite 2,
            star_mass = Finite 2, discovery_facility = Some ''TESS''\<rparr>]\<rparr>"
  have a: "0 < length ?ps" by simp
  have b: "normalize_object_name (pred_object_name (?ps ! 0)) = Inr ''711.03''"
    by (simp add: key_711_03)
  have c: "''711.03'' \<noteq> []" by simp
  have d: "0 < length (data_rows ?df)" by simp
  have e: "normalize_object_name (object_name (data_rows ?df ! 0)) = Inr ''711.03''"
    by (simp add: key_K00711_03)
  have f: "\<forall>j'<0. normalize_object_name (object_name (data_rows ?df ! j')) \<noteq> Inr ''711.03''"
    by simp
  have g: "complete_inputs ?ps ?df"
    by (simp add: complete_inputs_def all_columns names_normalize_def key_711_03
        key_K00711_03 key_0711_03)
  from matched_record_copied [OF a b c d e f, of "Finite (1/2)"] g
  show ?thesis by (auto simp: predicted_disposition_def)
qed

section \<open>Unmatched predictions\<close>




section \<open>Missing and empty names\<close>






section \<open>An empty prediction table\<close>

text \<open>
  Claim C10. Given no prediction the matcher never returns a table: it fails, and when
  the archival table has the column object\_name and its names normalize, it fails with
  \<open>KeyError\<close> on the nine column labels, an error it gives only when there is no
  prediction. Whenever it returns a table there is at least one prediction and the table
  has one row per prediction.
\<close>

theorem empty_predictions_fail:
  "(predictions = [] \<longrightarrow>
      (\<exists>e. match_predictions_with_data predictions all_data threshold = Inl e)) \<and>
   (predictions = [] \<and> ''object_name'' \<in> set (data_columns all_data) \<and>
    names_normalize (map object_name (data_rows all_data)) \<longrightarrow>
      match_predictions_with_data predictions all_data threshold =
        Inl (KeyError column_order)) \<and>
   (match_predictions_with_data predictions all_data threshold = Inl (KeyError column_order)
      \<longrightarrow> predictions = []) \<and>
   (\<forall>out. match_predictions_with_data predictions all_data threshold = Inr out \<longrightarrow>
      predictions \<noteq> [] \<and> length out = length predictions)"
proof -
  have a: "\<exists>e. match_predictions_with_data predictions all_data threshold = Inl e"
    if "predictions = []"
    using that match_Inr(2) [of predictions all_data threshold]
    by (cases "match_predictions_with_data predictions all_data threshold") auto
  have b: "match_predictions_with_data predictions all_data threshold =
        Inl (KeyError column_order)"
    if "predictions = []" and "''object_name'' \<in> set (data_columns all_data)"
      and "names_normalize (map object_name (data_rows all_data))"
    using that
    by (simp add: match_unfold names_normalize_def matched_rows_def final_table_Nil)
  have c: "predictions = []"
    if err: "match_predictions_with_data predictions all_data threshold =
        Inl (KeyError column_order)"
  proof (rule ccontr)
    assume ne: "predictions \<noteq> []"
    let ?md = "matched_rows predictions all_data threshold"
    have co: "column_order \<noteq> [''object_name'']" by (simp add: column_order_def)
    from err co have on: "''object_name'' \<in> set (data_columns all_data)"
      and ft: "final_table ?md = Inl (KeyError column_order)"
      by (auto simp: match_unfold split: if_splits)
    from ne have i0: "0 < length predictions" by simp
    then have mem: "?md ! 0 \<in> set ?md" by (simp add: length_matched_rows)
    have "''object_name'' \<in> set (dict_keys (?md ! 0))"
      unfolding matched_rows_nth [OF i0]
      using on by (auto simp: Let_def column_order_def split: option.splits)
    from final_table_not_all_missing [OF mem this] ft show False by simp
  qed
  have d: "predictions \<noteq> [] \<and> length out = length predictions"
    if "match_predictions_with_data predictions all_data threshold = Inr out" for out
    using match_Inr(2,3) [OF that] by simp
  show ?thesis using a b c d by blast
qed

theorem empty_predictions_fail_witness:
  "match_predictions_with_data []
     \<lparr>data_columns = column_order,
      data_rows =
        [\<lparr>mission = Some ''Kepler'', object_name = Some ''K00711.03'',
          disposition = Some ''CANDIDATE'', period = Finite (249/2),
          planet_radius = Finite 2, star_temp = Finite 5497, star_radius = Finite 1,
          star_mass = Finite 1, discovery_facility = Some ''Kepler''\<rparr>]\<rparr>
     (Finite (1/2)) = Inl (KeyError column_order) \<and>
   (\<exists>e. match_predictions_with_data [] \<lparr>data_columns = [], data_rows = []\<rparr> (Finite (1/2))
      = Inl e)"
proof -
  let ?df = "\<lparr>data_columns = column_order,
      data_rows =
        [\<lparr>mission = Some ''Kepler'', object_name = Some ''K00711.03'',
          disposition = Some ''CANDIDATE'', period = Finite (249/2),
          planet_radius = Finite 2, star_temp = Finite 5497, star_radius = Finite 1,
          star_mass = Finite 1, discovery_facility = Some ''Kepler''\<rparr>]\<rparr>"
  have h: "([] :: prediction list) = [] \<and> ''object_name'' \<in> set (data_columns ?df) \<and>
      names_normalize (map object_name (data_rows ?df))"
    by (simp add: column_order_def names_normalize_def key_K00711_03)
  from empty_predictions_fail [of "[]" ?df "Finite (1/2)"] h
  have a: "match_predictions_with_data [] ?df (Finite (1/2)) = Inl (KeyError column_order)"
    by blast
  from empty_predictions_fail [of "[]" "\<lparr>data_columns = [], data_rows = []\<rparr>" "Finite (1/2)"]
  have b: "\<exists>e. match_predictions_with_data [] \<lparr>data_columns = [], data_rows = []\<rparr>
      (Finite (1/2)) = Inl e"
    by blast
  from a b show ?thesis by blast
qed

section \<open>Stripped text\<close>

lemma py_strip_fixed:
  assumes "s = [] \<or> (\<not> py_isspace (hd s) \<and> \<not> py_isspace (last s))"
  shows "py_strip s = s"
proof (cases "s = []")
  case True
  then show ?thesis by (simp add: py_strip_def)
next
  case False
  with assms have h: "\<not> py_isspace (hd s)" and l: "\<not> py_isspace (last s)" by simp_all
  from False h have a: "dropWhile py_isspace s = s" by (cases s) simp_all
  from False l have b: "dropWhile py_isspace (rev s) = rev s"
    by (cases "rev s") (simp_all add: hd_rev [symmetric] last_rev)
  show ?thesis by (simp add: py_strip_def a b)
qed

lemma py_strip_ends:
  assumes "py_strip s \<noteq> []"
  shows "\<not> py_isspace (hd (py_strip s)) \<and> \<not> py_isspace (last (py_strip s))"
proof -
  let ?t = "dropWhile py_isspace s"
  let ?u = "dropWhile py_isspace (rev ?t)"
  have ps: "py_strip s = rev ?u" by (simp add: py_strip_def)
  with assms have u: "?u \<noteq> []" by simp
  have t: "?t \<noteq> []"
  proof
    assume "?t = []"
    then have "?u = []" by (simp only: rev.simps dropWhile.simps)
    with u show False by simp
  qed
  from u have hu: "\<not> py_isspace (hd ?u)" by (rule hd_dropWhile)
  from t have ht: "\<not> py_isspace (hd ?t)" by (rule hd_dropWhile)
  have "rev ?t = takeWhile py_isspace (rev ?t) @ ?u" by simp
  then have "last (rev ?t) = last ?u" using u by (metis last_appendR)
  then have lu: "last ?u = hd ?t" using t by (simp add: last_rev)
  show ?thesis
    using u hu ht lu by (simp add: ps hd_rev last_rev)
qed

lemma digit_not_space: "digit_char c \<Longrightarrow> \<not> py_isspace c"
  by (auto simp: digit_char_def py_isspace_def Let_def)

lemma point_not_space: "\<not> py_isspace CHR ''.''"
  by code_simp

section \<open>Prefixes in any case\<close>

lemma same_letter_upper: "spec_same_letter a b \<Longrightarrow> upper_char a = upper_char b"
proof -
  assume s: "spec_same_letter a b"
  show ?thesis
  proof (cases "a = b")
    case True
    then show ?thesis by simp
  next
    case False
    with s have b: "65 \<le> (of_char b :: nat)" "(of_char b :: nat) \<le> 90"
      and a: "(of_char a :: nat) = of_char b + 32"
      by (simp_all add: spec_same_letter_def)
    from a b have "upper_char a = char_of (of_char b :: nat)"
      by (simp add: upper_char_def Let_def)
    moreover from b have "upper_char b = b" by (simp add: upper_char_def Let_def)
    ultimately show ?thesis by simp
  qed
qed

lemma case_variant_upper: "spec_case_variant q p \<Longrightarrow> py_upper q = py_upper p"
  unfolding spec_case_variant_def py_upper_def
  by (induction q p rule: list_all2_induct) (simp_all add: same_letter_upper)

lemma case_variant_length: "spec_case_variant q p \<Longrightarrow> length q = length p"
  unfolding spec_case_variant_def by (rule list_all2_lengthD)

lemma py_upper_append: "py_upper (a @ b) = py_upper a @ py_upper b"
  by (simp add: py_upper_def)

lemma upper_K: "py_upper ''K'' = ''K''" by code_simp
lemma upper_KOI_dash: "py_upper ''KOI-'' = ''KOI-''" by code_simp
lemma upper_KOI_blank: "py_upper ''KOI '' = ''KOI ''" by code_simp
lemma upper_TOI_dash: "py_upper ''TOI-'' = ''TOI-''" by code_simp
lemma upper_TOI_blank: "py_upper ''TOI '' = ''TOI ''" by code_simp
lemma upper_EPIC_blank: "py_upper ''EPIC '' = ''EPIC ''" by code_simp
lemma upper_EPIC_dash: "py_upper ''EPIC-'' = ''EPIC-''" by code_simp

lemmas upper_prefix =
  upper_K upper_KOI_dash upper_KOI_blank upper_TOI_dash upper_TOI_blank upper_EPIC_blank
  upper_EPIC_dash

lemma remove_prefix_variant:
  assumes "spec_case_variant q p"
    and "p \<in> set [''K'', ''TOI-'', ''TOI '', ''EPIC '', ''EPIC-'']"
  shows "remove_prefix prefixes (q @ rest) = rest"
proof -
  have up: "py_upper (q @ rest) = py_upper p @ py_upper rest"
    by (simp add: py_upper_append case_variant_upper [OF assms(1)])
  have len: "length q = length p" by (rule case_variant_length [OF assms(1)])
  from assms(2) consider "p = ''K''" | "p = ''TOI-''" | "p = ''TOI ''" | "p = ''EPIC ''"
    | "p = ''EPIC-''" by auto
  then show ?thesis
  proof cases
    case 1
    with up len show ?thesis
      by (simp add: prefixes_def py_startswith_def upper_prefix)
  next
    case 2
    with up len show ?thesis
      by (simp add: prefixes_def py_startswith_def upper_prefix)
  next
    case 3
    with up len show ?thesis
      by (simp add: prefixes_def py_startswith_def upper_prefix)
  next
    case 4
    with up len show ?thesis
      by (simp add: prefixes_def py_startswith_def upper_prefix)
  next
    case 5
    with up len show ?thesis
      by (simp add: prefixes_def py_startswith_def upper_prefix)
  qed
qed

lemma space_upper: "py_isspace c \<Longrightarrow> upper_char c = c"
  by (auto simp: py_isspace_def upper_char_def Let_def)

lemma case_variant_hd:
  assumes "spec_case_variant q p"
    and "p \<in> set [''K'', ''TOI-'', ''TOI '', ''EPIC '', ''EPIC-'']"
  shows "q \<noteq> [] \<and> \<not> py_isspace (hd q)"
proof -
  from assms(2) have pne: "p \<noteq> []" by auto
  with case_variant_length [OF assms(1)] have qne: "q \<noteq> []" by auto
  have nsp: "\<not> py_isspace (hd (py_upper p))"
    using assms(2) by (auto simp: upper_prefix) (code_simp+)
  have "hd (py_upper q) = upper_char (hd q)"
    using qne by (cases q) (simp_all add: py_upper_def)
  then have "upper_char (hd q) = hd (py_upper p)"
    by (simp add: case_variant_upper [OF assms(1)])
  with nsp space_upper [of "hd q"] have "\<not> py_isspace (hd q)" by auto
  with qne show ?thesis by simp
qed

lemma normalize_prefixed:
  assumes "spec_case_variant q p"
    and "p \<in> set [''K'', ''TOI-'', ''TOI '', ''EPIC '', ''EPIC-'']"
    and "rest \<noteq> []" and "\<not> py_isspace (last rest)"
  shows "normalize_object_name (Some (q @ rest)) =
     (case remove_leading_zeros rest of Inl e \<Rightarrow> Inl e | Inr z \<Rightarrow> Inr (py_strip z))"
proof -
  from case_variant_hd [OF assms(1,2)] have "q \<noteq> []" "\<not> py_isspace (hd q)" by simp_all
  with assms(3,4) have "py_strip (q @ rest) = q @ rest"
    by (intro py_strip_fixed) simp
  then show ?thesis
    by (simp add: normalize_object_name_def remove_prefix_variant [OF assms(1,2)])
qed

lemma spec_strip_zeros_accepts:
  assumes "int_accepts h"
  shows "int_accepts (spec_strip_zeros h)"
proof (cases "dropWhile (\<lambda>c. c = CHR ''0'') h")
  case Nil
  have "int_accepts ''0''" by code_simp
  then show ?thesis by (simp only: spec_strip_zeros_Nil [OF Nil])
next
  case (Cons c cs)
  have "set (c # cs) \<subseteq> set h"
    using set_dropWhileD [of _ "\<lambda>c. c = CHR ''0''" h] Cons by auto
  moreover have "length (c # cs) \<le> length h"
    using length_dropWhile_le [of "\<lambda>c. c = CHR ''0''" h] Cons by simp
  ultimately show ?thesis
    using assms unfolding spec_strip_zeros_Cons [OF Cons]
    by (auto simp: int_accepts_def list_all_iff)
qed

lemma accepted_head:
  assumes "int_accepts h"
  shows "spec_strip_zeros h \<noteq> [] \<and> \<not> py_isspace (hd (spec_strip_zeros h)) \<and>
     py_isdigit h \<and> \<not> head_raises h \<and> CHR ''.'' \<notin> set h"
proof -
  from spec_strip_zeros_accepts [OF assms]
  have ne: "spec_strip_zeros h \<noteq> []" and d: "list_all digit_char (spec_strip_zeros h)"
    by (simp_all add: int_accepts_def)
  then have "digit_char (hd (spec_strip_zeros h))"
    by (cases "spec_strip_zeros h") simp_all
  then have "\<not> py_isspace (hd (spec_strip_zeros h))" by (rule digit_not_space)
  moreover have "CHR ''.'' \<notin> set h"
    using assms by (intro digits_no_point) (simp add: int_accepts_def)
  ultimately show ?thesis
    using ne assms int_accepts_isdigit [OF assms] by (simp add: head_raises_def)
qed

lemma numeric_head_result:
  assumes "int_accepts h" and "t = [] \<or> \<not> py_isspace (last t)"
  shows "remove_leading_zeros (h @ CHR ''.'' # t) = Inr (spec_strip_zeros h @ CHR ''.'' # t)"
    and "py_strip (spec_strip_zeros h @ CHR ''.'' # t) = spec_strip_zeros h @ CHR ''.'' # t"
    and "py_strip (h @ CHR ''.'' # t) = h @ CHR ''.'' # t"
proof -
  note a = accepted_head [OF assms(1)]
  from a show "remove_leading_zeros (h @ CHR ''.'' # t) =
      Inr (spec_strip_zeros h @ CHR ''.'' # t)"
    by (simp add: remove_leading_zeros_point)
  have l: "\<not> py_isspace (last (CHR ''.'' # t))"
    using assms(2) point_not_space by auto
  from a l show "py_strip (spec_strip_zeros h @ CHR ''.'' # t) =
      spec_strip_zeros h @ CHR ''.'' # t"
    by (intro py_strip_fixed) simp
  from assms(1) have hne: "h \<noteq> []" and "digit_char (hd h)"
    by (cases h; simp add: int_accepts_def)+
  then have "\<not> py_isspace (hd h)" by (simp add: digit_not_space)
  with hne l show "py_strip (h @ CHR ''.'' # t) = h @ CHR ''.'' # t"
    by (intro py_strip_fixed) simp
qed

lemma digit_upper: "digit_char c \<Longrightarrow> upper_char c = c"
  by (auto simp: digit_char_def upper_char_def Let_def)

lemma digit_first_no_prefix:
  assumes "digit_char c"
  shows "remove_prefix prefixes (c # s) = c # s"
proof -
  have "\<not> digit_char CHR ''K''" "\<not> digit_char CHR ''T''" "\<not> digit_char CHR ''E''"
    by code_simp+
  with assms have "c \<noteq> CHR ''K''" "c \<noteq> CHR ''T''" "c \<noteq> CHR ''E''" by auto
  moreover have "py_upper (c # s) = c # py_upper s"
    by (simp add: py_upper_def digit_upper [OF assms])
  ultimately show ?thesis
    by (simp add: prefixes_def py_startswith_def upper_prefix)
qed

lemma remove_prefix_find:
  "remove_prefix ps name =
     (case find (\<lambda>prefix. py_startswith (py_upper name) (py_upper prefix)) ps of
        None \<Rightarrow> name
      | Some prefix \<Rightarrow> drop (length prefix) name)"
  by (induction ps) auto

section \<open>What the normalizer does to a name\<close>

text \<open>
  Claim C6. The prefixes are tried in the order K, KOI-, KOI followed by a blank, TOI-,
  TOI followed by a blank, EPIC followed by a blank, EPIC-, and the first that matches is
  the one cut off. A name that begins with K, TOI-, TOI and a blank, EPIC and a blank or
  EPIC-, written in capital or small letters, loses that prefix and nothing more: the
  rest is kept even where it begins with a prefix again. A head before the first point
  that is a decimal numeral loses its leading zeros, after a prefix and without one. So
  K00711.03 and 711.03 both give 711.03, TOI-1468.01 gives 1468.01 and EPIC 201367065
  gives 201367065; written small the names give the same keys; KOI-7.5 loses only its K;
  and EPIC K00711.03 keeps K00711.03.
\<close>

theorem normalize_examples:
  "prefixes = [''K'', ''KOI-'', ''KOI '', ''TOI-'', ''TOI '', ''EPIC '', ''EPIC-''] \<and>
   remove_prefix prefixes name =
     (case find (\<lambda>prefix. py_startswith (py_upper name) (py_upper prefix)) prefixes of
        None \<Rightarrow> name
      | Some prefix \<Rightarrow> drop (length prefix) name) \<and>
   (spec_case_variant q prefix \<and>
    prefix \<in> set [''K'', ''TOI-'', ''TOI '', ''EPIC '', ''EPIC-''] \<and>
    rest \<noteq> [] \<and> \<not> py_isspace (last rest) \<and> CHR ''.'' \<notin> set rest \<longrightarrow>
      normalize_object_name (Some (q @ rest)) = Inr (py_strip rest)) \<and>
   (spec_case_variant q prefix \<and>
    prefix \<in> set [''K'', ''TOI-'', ''TOI '', ''EPIC '', ''EPIC-''] \<and>
    int_accepts head \<and> (tail = [] \<or> \<not> py_isspace (last tail)) \<longrightarrow>
      normalize_object_name (Some (q @ head @ CHR ''.'' # tail)) =
        Inr (spec_strip_zeros head @ CHR ''.'' # tail)) \<and>
   (int_accepts head \<and> (tail = [] \<or> \<not> py_isspace (last tail)) \<longrightarrow>
      normalize_object_name (Some (head @ CHR ''.'' # tail)) =
        Inr (spec_strip_zeros head @ CHR ''.'' # tail)) \<and>
   normalize_object_name (Some ''K00711.03'') = Inr ''711.03'' \<and>
   normalize_object_name (Some ''711.03'') = Inr ''711.03'' \<and>
   normalize_object_name (Some ''TOI-1468.01'') = Inr ''1468.01'' \<and>
   normalize_object_name (Some ''EPIC 201367065'') = Inr ''201367065'' \<and>
   normalize_object_name (Some ''k00711.03'') = Inr ''711.03'' \<and>
   normalize_object_name (Some ''toi-1468.01'') = Inr ''1468.01'' \<and>
   normalize_object_name (Some ''Epic 201367065'') = Inr ''201367065'' \<and>
   normalize_object_name (Some ''KOI-7.5'') = Inr ''OI-7.5'' \<and>
   normalize_object_name (Some ''EPIC K00711.03'') = Inr ''K00711.03''"
proof -
  have order: "prefixes = [''K'', ''KOI-'', ''KOI '', ''TOI-'', ''TOI '', ''EPIC '', ''EPIC-'']"
    by (simp add: prefixes_def)
  have first: "remove_prefix prefixes name =
     (case find (\<lambda>prefix. py_startswith (py_upper name) (py_upper prefix)) prefixes of
        None \<Rightarrow> name
      | Some prefix \<Rightarrow> drop (length prefix) name)"
    by (rule remove_prefix_find)
  have one: "normalize_object_name (Some (q @ rest)) = Inr (py_strip rest)"
    if "spec_case_variant q prefix"
      and "prefix \<in> set [''K'', ''TOI-'', ''TOI '', ''EPIC '', ''EPIC-'']"
      and "rest \<noteq> []" and "\<not> py_isspace (last rest)" and "CHR ''.'' \<notin> set rest"
    using normalize_prefixed [OF that(1-4)] that(5)
    by (simp add: remove_leading_zeros_no_point)
  have zeros_after: "normalize_object_name (Some (q @ head @ CHR ''.'' # tail)) =
        Inr (spec_strip_zeros head @ CHR ''.'' # tail)"
    if v: "spec_case_variant q prefix"
      and p: "prefix \<in> set [''K'', ''TOI-'', ''TOI '', ''EPIC '', ''EPIC-'']"
      and h: "int_accepts head" and t: "tail = [] \<or> \<not> py_isspace (last tail)"
  proof -
    have l: "\<not> py_isspace (last (head @ CHR ''.'' # tail))"
      using t point_not_space by auto
    have "normalize_object_name (Some (q @ (head @ CHR ''.'' # tail))) =
        (case remove_leading_zeros (head @ CHR ''.'' # tail) of
           Inl e \<Rightarrow> Inl e | Inr z \<Rightarrow> Inr (py_strip z))"
      using v p _ l by (rule normalize_prefixed) simp
    then show ?thesis by (simp add: numeric_head_result [OF h t])
  qed
  have zeros_bare: "normalize_object_name (Some (head @ CHR ''.'' # tail)) =
        Inr (spec_strip_zeros head @ CHR ''.'' # tail)"
    if h: "int_accepts head" and t: "tail = [] \<or> \<not> py_isspace (last tail)"
  proof -
    from h obtain c cs where hd: "head = c # cs" and d: "digit_char c"
      by (cases head) (simp_all add: int_accepts_def)
    have "remove_prefix prefixes (head @ CHR ''.'' # tail) = head @ CHR ''.'' # tail"
      using digit_first_no_prefix [OF d, of "cs @ CHR ''.'' # tail"] by (simp add: hd)
    then show ?thesis
      by (simp add: normalize_object_name_def numeric_head_result [OF h t])
  qed
  have e1: "normalize_object_name (Some ''TOI-1468.01'') = Inr ''1468.01''" by code_simp
  have e2: "normalize_object_name (Some ''EPIC 201367065'') = Inr ''201367065''" by code_simp
  have e3: "normalize_object_name (Some ''k00711.03'') = Inr ''711.03''" by code_simp
  have e4: "normalize_object_name (Some ''toi-1468.01'') = Inr ''1468.01''" by code_simp
  have e5: "normalize_object_name (Some ''Epic 201367065'') = Inr ''201367065''" by code_simp
  have e6: "normalize_object_name (Some ''KOI-7.5'') = Inr ''OI-7.5''" by code_simp
  have e7: "normalize_object_name (Some ''EPIC K00711.03'') = Inr ''K00711.03''" by code_simp
  show ?thesis
    using order first one zeros_after zeros_bare key_K00711_03 key_711_03 e1 e2 e3 e4 e5 e6 e7
    by blast
qed

theorem normalize_examples_witness:
  "normalize_object_name (Some ''toi-K5'') = Inr ''K5'' \<and>
   normalize_object_name (Some ''ePiC 00711.03'') = Inr ''711.03'' \<and>
   normalize_object_name (Some ''000.5'') = Inr ''0.5''"
proof -
  have v1: "spec_case_variant ''toi-'' ''TOI-''" by code_simp
  have v2: "spec_case_variant ''ePiC '' ''EPIC ''" by code_simp
  have m1: "''TOI-'' \<in> set [''K'', ''TOI-'', ''TOI '', ''EPIC '', ''EPIC-'']" by simp
  have m2: "''EPIC '' \<in> set [''K'', ''TOI-'', ''TOI '', ''EPIC '', ''EPIC-'']" by simp
  have r: "''K5'' \<noteq> [] \<and> \<not> py_isspace (last ''K5'') \<and> CHR ''.'' \<notin> set ''K5''"
    by code_simp
  have s: "py_strip ''K5'' = ''K5''" by code_simp
  have h1: "int_accepts ''00711''" by code_simp
  have h2: "int_accepts ''000''" by code_simp
  have t1: "''03'' = [] \<or> \<not> py_isspace (last ''03'')" by code_simp
  have t2: "''5'' = [] \<or> \<not> py_isspace (last ''5'')" by code_simp
  have z1: "spec_strip_zeros ''00711'' = ''711''" by code_simp
  have z2: "spec_strip_zeros ''000'' = ''0''" by code_simp
  from normalize_examples [of "[]" "''toi-''" "''TOI-''" "''K5''" "''000''" "''5''"]
    v1 m1 r s h2 t2 z2
  have a: "normalize_object_name (Some ''toi-K5'') = Inr ''K5''"
    and c: "normalize_object_name (Some ''000.5'') = Inr ''0.5''"
    by simp_all
  from normalize_examples [of "[]" "''ePiC ''" "''EPIC ''" "''K5''" "''00711''" "''03''"]
    v2 m2 h1 t1 z1
  have b: "normalize_object_name (Some ''ePiC 00711.03'') = Inr ''711.03''"
    by simp
  from a b c show ?thesis by blast
qed

section \<open>The rewritten head\<close>

lemma remove_prefix_suffix:
  "remove_prefix ps s = s \<or> (\<exists>n. n \<le> length s \<and> remove_prefix ps s = drop n s)"
proof (induction ps)
  case Nil
  then show ?case by simp
next
  case (Cons p ps)
  show ?case
  proof (cases "py_startswith (py_upper s) (py_upper p)")
    case True
    then have "length (take (length (py_upper p)) (py_upper s)) = length (py_upper p)"
      by (simp add: py_startswith_def)
    then have "length p \<le> length s" by (simp add: py_upper_def)
    with True show ?thesis by auto
  next
    case False
    with Cons show ?thesis by simp
  qed
qed

lemma remove_prefix_last:
  assumes "remove_prefix ps s \<noteq> []"
  shows "s \<noteq> [] \<and> last (remove_prefix ps s) = last s"
  using remove_prefix_suffix [of ps s] assms by (auto simp: last_drop)

lemma remove_prefix_none:
  "\<not> list_ex (\<lambda>prefix. py_startswith (py_upper s) (py_upper prefix)) ps \<Longrightarrow>
   remove_prefix ps s = s"
  by (induction ps) auto

lemma spec_strip_zeros_idem: "spec_strip_zeros (spec_strip_zeros h) = spec_strip_zeros h"
proof (cases "dropWhile (\<lambda>c. c = CHR ''0'') h")
  case Nil
  have "spec_strip_zeros ''0'' = ''0''" by code_simp
  then show ?thesis by (simp only: spec_strip_zeros_Nil [OF Nil])
next
  case (Cons c cs)
  then have "c \<noteq> CHR ''0''"
    using hd_dropWhile [of "\<lambda>c. c = CHR ''0''" h] by auto
  then have "spec_strip_zeros (c # cs) = c # cs" by (simp add: spec_strip_zeros_def)
  then show ?thesis by (simp only: spec_strip_zeros_Cons [OF Cons])
qed

text \<open>
  The head the normalizer writes back when it does not raise: it does not raise on it
  again and writes it back unchanged.
\<close>

lemma rewritten_head:
  assumes "\<not> head_raises h" and "CHR ''.'' \<notin> set h"
    and "h \<noteq> [] \<longrightarrow> \<not> py_isspace (hd h)"
  shows "\<not> head_raises (if py_isdigit h then spec_strip_zeros h else h)"
    and "(if py_isdigit (if py_isdigit h then spec_strip_zeros h else h)
          then spec_strip_zeros (if py_isdigit h then spec_strip_zeros h else h)
          else (if py_isdigit h then spec_strip_zeros h else h)) =
         (if py_isdigit h then spec_strip_zeros h else h)"
    and "CHR ''.'' \<notin> set (if py_isdigit h then spec_strip_zeros h else h)"
    and "(if py_isdigit h then spec_strip_zeros h else h) \<noteq> [] \<longrightarrow>
         \<not> py_isspace (hd (if py_isdigit h then spec_strip_zeros h else h))"
proof -
  show "\<not> head_raises (if py_isdigit h then spec_strip_zeros h else h)"
    using assms(1) spec_strip_zeros_accepts [of h] by (auto simp: head_raises_def)
  show "(if py_isdigit (if py_isdigit h then spec_strip_zeros h else h)
          then spec_strip_zeros (if py_isdigit h then spec_strip_zeros h else h)
          else (if py_isdigit h then spec_strip_zeros h else h)) =
         (if py_isdigit h then spec_strip_zeros h else h)"
    by (simp add: spec_strip_zeros_idem)
  show "CHR ''.'' \<notin> set (if py_isdigit h then spec_strip_zeros h else h)"
  proof (cases "py_isdigit h")
    case True
    with assms(1) have "int_accepts h" by (simp add: head_raises_def)
    from accepted_head [OF spec_strip_zeros_accepts [OF this]] True show ?thesis by simp
  next
    case False
    with assms(2) show ?thesis by simp
  qed
  show "(if py_isdigit h then spec_strip_zeros h else h) \<noteq> [] \<longrightarrow>
         \<not> py_isspace (hd (if py_isdigit h then spec_strip_zeros h else h))"
  proof (cases "py_isdigit h")
    case True
    with assms(1) have "int_accepts h" by (simp add: head_raises_def)
    from accepted_head [OF this] True show ?thesis by simp
  next
    case False
    with assms(3) show ?thesis by simp
  qed
qed

lemma stripped_key_fixed:
  assumes fixed: "py_strip r = r"
    and out: "remove_leading_zeros r = Inr z"
    and nopre: "\<not> begins_with_prefix (py_strip z)"
  shows "normalize_object_name (Some (py_strip z)) = Inr (py_strip z)"
proof (cases "CHR ''.'' \<in> set r")
  case False
  with out have z: "z = r" by (simp add: remove_leading_zeros_def)
  have "remove_prefix prefixes r = r"
    using nopre by (simp add: z fixed begins_with_prefix_def remove_prefix_none)
  moreover have "remove_leading_zeros r = Inr r"
    using False by (simp add: remove_leading_zeros_def)
  ultimately show ?thesis by (simp add: normalize_object_name_def z fixed)
next
  case True
  then obtain h t where r: "r = h @ CHR ''.'' # t" and h: "CHR ''.'' \<notin> set h"
    by (auto dest: split_list_first)
  let ?h = "if py_isdigit h then spec_strip_zeros h else h"
  from out have nr: "\<not> head_raises h" and z: "z = ?h @ CHR ''.'' # t"
    using remove_leading_zeros_point [OF h, of t] by (auto simp: r split: if_splits)
  have rne: "r \<noteq> []" using r by simp
  then have ends: "\<not> py_isspace (hd r) \<and> \<not> py_isspace (last r)"
    using py_strip_ends [of r] fixed by simp
  have hh: "h \<noteq> [] \<longrightarrow> \<not> py_isspace (hd h)" using ends r by (cases h) auto
  note rw = rewritten_head [OF nr h hh]
  have hz: "\<not> py_isspace (hd z)"
  proof (cases "?h = []")
    case True
    then show ?thesis using point_not_space by (simp add: z)
  next
    case False
    then have "hd z = hd ?h" by (simp add: z)
    with rw(4) False show ?thesis by simp
  qed
  have "last z = last r" by (simp add: z r)
  with ends have lz: "\<not> py_isspace (last z)" by simp
  have zfix: "py_strip z = z" using hz lz by (intro py_strip_fixed) simp
  have pre: "remove_prefix prefixes z = z"
    using nopre by (simp add: zfix begins_with_prefix_def remove_prefix_none)
  have "remove_leading_zeros z = Inr z"
    unfolding z
    using remove_leading_zeros_point [OF rw(3), of t] rw(1) rw(2)
    by simp
  with pre show ?thesis by (simp add: normalize_object_name_def zfix)
qed

lemma empty_name_key: "normalize_object_name (Some []) = Inr []"
  by code_simp

section \<open>Normalizing twice\<close>

text \<open>
  Claim C8, as amended. Normalizing a key again gives the same key when the key does not
  begin with a prefix and the text left after the prefix was cut off did not begin with
  white space.
\<close>

theorem normalize_idempotent:
  assumes "normalize_object_name name = Inr key"
    and "\<not> begins_with_prefix key"
    and "case name of
           None \<Rightarrow> True
         | Some raw \<Rightarrow> \<not> begins_with_space (remove_prefix prefixes (py_strip raw))"
  shows "normalize_object_name (Some key) = Inr key"
proof (cases name)
  case None
  with assms(1) have "key = []" by (simp add: normalize_object_name_def)
  then show ?thesis by (simp add: empty_name_key)
next
  case (Some raw)
  let ?s = "py_strip raw"
  let ?r = "remove_prefix prefixes ?s"
  from assms(1) Some obtain z where z: "remove_leading_zeros ?r = Inr z"
    and key: "key = py_strip z"
    by (auto simp: normalize_object_name_def split: sum.splits)
  have fixed: "py_strip ?r = ?r"
  proof (rule py_strip_fixed, cases "?r = []")
    case True
    then show "?r = [] \<or> (\<not> py_isspace (hd ?r) \<and> \<not> py_isspace (last ?r))" by simp
  next
    case False
    then have "?s \<noteq> []" and "last ?r = last ?s"
      using remove_prefix_last [of prefixes ?s] by simp_all
    then have "\<not> py_isspace (last ?r)" using py_strip_ends [of raw] by simp
    moreover have "\<not> py_isspace (hd ?r)"
      using assms(3) Some False by (cases ?r) (simp_all add: begins_with_space_def)
    ultimately show "?r = [] \<or> (\<not> py_isspace (hd ?r) \<and> \<not> py_isspace (last ?r))" by simp
  qed
  show ?thesis
    unfolding key using fixed z assms(2) [unfolded key] by (rule stripped_key_fixed)
qed

theorem normalize_idempotent_witness:
  "normalize_object_name (Some '' k00711.03 '') = Inr ''711.03'' \<and>
   normalize_object_name (Some ''711.03'') = Inr ''711.03''"
proof -
  have a: "normalize_object_name (Some '' k00711.03 '') = Inr ''711.03''" by code_simp
  have b: "\<not> begins_with_prefix ''711.03''" by code_simp
  have c: "case Some '' k00711.03 '' of
           None \<Rightarrow> True
         | Some raw \<Rightarrow> \<not> begins_with_space (remove_prefix prefixes (py_strip raw))"
    by code_simp
  from normalize_idempotent [OF a b c] a show ?thesis by simp
qed

text \<open>
  Claim C8 as stated fails: the name K 007.5 loses its K, the blank then hides the zeros
  from the digit test, and the final strip leaves 007.5, which begins with no prefix and
  normalizes to 7.5.
\<close>

theorem normalize_not_idempotent:
  "\<not> (\<forall>x y. normalize_object_name x = Inr y \<and> \<not> begins_with_prefix y \<longrightarrow>
          normalize_object_name (Some y) = Inr y)"
proof
  assume all: "\<forall>x y. normalize_object_name x = Inr y \<and> \<not> begins_with_prefix y \<longrightarrow>
          normalize_object_name (Some y) = Inr y"
  have a: "normalize_object_name (Some ''K 007.5'') = Inr ''007.5''" by code_simp
  have b: "\<not> begins_with_prefix ''007.5''" by code_simp
  have c: "normalize_object_name (Some ''007.5'') = Inr ''7.5''" by code_simp
  from all a b have "normalize_object_name (Some ''007.5'') = Inr ''007.5''" by blast
  with c show False by simp
qed

section \<open>Deduplication\<close>

lemma name_key_eq: "(name_key r = name_key k) = (object_name r = object_name k)"
  by (auto simp: name_key_def split: option.splits)

lemma drop_duplicates_subset: "set (drop_duplicates seen rs) \<subseteq> set rs"
  by (induction rs arbitrary: seen) auto

lemma drop_duplicates_unseen:
  "k \<in> set (drop_duplicates seen rs) \<Longrightarrow> object_name k \<notin> set seen"
proof (induction rs arbitrary: seen)
  case Nil
  then show ?case by simp
next
  case (Cons r rs)
  show ?case
  proof (cases "object_name r \<in> set seen")
    case True
    with Cons.prems have "k \<in> set (drop_duplicates seen rs)" by simp
    then show ?thesis by (rule Cons.IH)
  next
    case False
    with Cons.prems have "k = r \<or> k \<in> set (drop_duplicates (object_name r # seen) rs)"
      by simp
    then show ?thesis
    proof
      assume "k = r"
      with False show ?thesis by simp
    next
      assume "k \<in> set (drop_duplicates (object_name r # seen) rs)"
      then have "object_name k \<notin> set (object_name r # seen)" by (rule Cons.IH)
      then show ?thesis by simp
    qed
  qed
qed

lemma drop_duplicates_distinct: "distinct (map object_name (drop_duplicates seen rs))"
proof (induction rs arbitrary: seen)
  case Nil
  then show ?case by simp
next
  case (Cons r rs)
  have "object_name r \<notin> object_name ` set (drop_duplicates (object_name r # seen) rs)"
  proof
    assume "object_name r \<in> object_name ` set (drop_duplicates (object_name r # seen) rs)"
    then obtain k where "k \<in> set (drop_duplicates (object_name r # seen) rs)"
      and "object_name k = object_name r" by auto
    with drop_duplicates_unseen [of k "object_name r # seen" rs] show False by simp
  qed
  with Cons.IH show ?case by simp
qed

lemma drop_duplicates_covers:
  "r \<in> set rs \<Longrightarrow> object_name r \<notin> set seen \<Longrightarrow>
   \<exists>k\<in>set (drop_duplicates seen rs). object_name k = object_name r"
proof (induction rs arbitrary: seen)
  case Nil
  then show ?case by simp
next
  case (Cons x xs)
  show ?case
  proof (cases "object_name x \<in> set seen")
    case True
    with Cons.prems have "r \<in> set xs" by auto
    from Cons.IH [OF this Cons.prems(2)] True show ?thesis by simp
  next
    case False
    show ?thesis
    proof (cases "object_name r = object_name x")
      case True
      with False show ?thesis by auto
    next
      case neq: False
      with Cons.prems have "r \<in> set xs" and "object_name r \<notin> set (object_name x # seen)"
        by auto
      from Cons.IH [OF this] False show ?thesis by auto
    qed
  qed
qed

lemma drop_duplicates_best:
  assumes "sorted (map sort_columns rs)"
    and "k \<in> set (drop_duplicates seen rs)"
    and "r \<in> set rs"
    and "object_name r = object_name k"
  shows "priority_key k \<le> priority_key r"
  using assms
proof (induction rs arbitrary: seen)
  case Nil
  then show ?case by simp
next
  case (Cons x xs)
  from Cons.prems(1) have sorted_xs: "sorted (map sort_columns xs)"
    and least: "\<forall>y\<in>set xs. sort_columns x \<le> sort_columns y" by simp_all
  show ?case
  proof (cases "object_name x \<in> set seen")
    case True
    with Cons.prems(2) have k: "k \<in> set (drop_duplicates seen xs)" by simp
    then have "object_name k \<notin> set seen" by (rule drop_duplicates_unseen)
    with True Cons.prems(4) have "r \<noteq> x" by auto
    with Cons.prems(3) have "r \<in> set xs" by simp
    from Cons.IH [OF sorted_xs k this Cons.prems(4)] show ?thesis .
  next
    case False
    with Cons.prems(2) have
      "k = x \<or> k \<in> set (drop_duplicates (object_name x # seen) xs)" by simp
    then show ?thesis
    proof
      assume kx: "k = x"
      show ?thesis
      proof (cases "r = x")
        case True
        with kx show ?thesis by simp
      next
        case neq: False
        with Cons.prems(3) have "r \<in> set xs" by simp
        with least have "sort_columns x \<le> sort_columns r" by simp
        moreover have "name_key x = name_key r"
          using Cons.prems(4) kx by (simp add: name_key_eq)
        ultimately show ?thesis using kx by (simp add: sort_columns_def less_eq_prod_def)
      qed
    next
      assume k: "k \<in> set (drop_duplicates (object_name x # seen) xs)"
      then have "object_name k \<notin> set (object_name x # seen)"
        by (rule drop_duplicates_unseen)
      with Cons.prems(4) have "r \<noteq> x" by auto
      with Cons.prems(3) have "r \<in> set xs" by simp
      from Cons.IH [OF sorted_xs k this Cons.prems(4)] show ?thesis .
    qed
  qed
qed

lemma priority_values: "priority d = Some p \<Longrightarrow> p = 1 \<or> p = 2 \<or> p = 3"
  by (auto simp: priority_def split: option.splits if_splits)

lemma priority_confirmed: "(priority d = Some 1) = (d = Some ''CONFIRMED'')"
  by (auto simp: priority_def split: option.splits if_splits)

lemma priority_key_confirmed:
  assumes "priority_key k \<le> priority_key r" and "disposition r = Some ''CONFIRMED''"
  shows "disposition k = Some ''CONFIRMED''"
proof -
  have r: "priority_key r = (0, 1)"
    using assms(2) by (simp add: priority_key_def priority_def)
  show ?thesis
  proof (cases "priority (disposition k)")
    case None
    with assms(1) r show ?thesis by (simp add: priority_key_def less_eq_prod_def)
  next
    case (Some p)
    with assms(1) r have "p \<le> 1" by (simp add: priority_key_def less_eq_prod_def)
    with priority_values [OF Some] have "p = 1" by auto
    with Some have "priority (disposition k) = Some 1" by simp
    then show ?thesis by (simp only: priority_confirmed)
  qed
qed

text \<open>
  Claim C1, as amended. The output of the deduplication step has no two rows with the
  same object name as written; every row of the output is a row of the input; and for
  every input row the output holds a row of the same object name whose priority is at
  least as good, so a name that has a CONFIRMED row keeps a CONFIRMED row.
\<close>

theorem deduplication_by_object_name:
  "distinct (map object_name (smart_deduplication all_data)) \<and>
   set (smart_deduplication all_data) \<subseteq> set all_data \<and>
   (\<forall>r\<in>set all_data. \<exists>k\<in>set (smart_deduplication all_data).
      object_name k = object_name r \<and> priority_key k \<le> priority_key r \<and>
      (disposition r = Some ''CONFIRMED'' \<longrightarrow> disposition k = Some ''CONFIRMED''))"
proof -
  let ?sorted = "sort_key sort_columns all_data"
  have srt: "sorted (map sort_columns ?sorted)" by (rule sorted_sort_key)
  have a: "distinct (map object_name (smart_deduplication all_data))"
    by (simp add: smart_deduplication_def drop_duplicates_distinct)
  have b: "set (smart_deduplication all_data) \<subseteq> set all_data"
    using drop_duplicates_subset [of "[]" ?sorted] by (simp add: smart_deduplication_def)
  have c: "\<exists>k\<in>set (smart_deduplication all_data).
      object_name k = object_name r \<and> priority_key k \<le> priority_key r \<and>
      (disposition r = Some ''CONFIRMED'' \<longrightarrow> disposition k = Some ''CONFIRMED'')"
    if r: "r \<in> set all_data" for r
  proof -
    from r have r': "r \<in> set ?sorted" by simp
    then obtain k where k: "k \<in> set (drop_duplicates [] ?sorted)"
      and nm: "object_name k = object_name r"
      using drop_duplicates_covers [of r ?sorted "[]"] by auto
    have le: "priority_key k \<le> priority_key r"
      using drop_duplicates_best [OF srt k r'] nm by simp
    show ?thesis
      using k nm le priority_key_confirmed [OF le]
      by (auto simp: smart_deduplication_def)
  qed
  show ?thesis using a b c by blast
qed

theorem deduplication_by_object_name_witness:
  "distinct (map object_name (smart_deduplication
     [\<lparr>mission = Some ''TESS_ALL_FP'', object_name = Some ''1.01'',
       disposition = Some ''FALSE POSITIVE'', period = Finite 2, planet_radius = Finite 13,
       star_temp = Finite 5800, star_radius = Finite 1, star_mass = Finite 1,
       discovery_facility = None\<rparr>,
      \<lparr>mission = Some ''TESS'', object_name = Some ''1.01'',
       disposition = Some ''CONFIRMED'', period = Finite 2, planet_radius = Finite 13,
       star_temp = Finite 5800, star_radius = Finite 1, star_mass = Finite 1,
       discovery_facility = None\<rparr>])) \<and>
   (\<exists>k\<in>set (smart_deduplication
     [\<lparr>mission = Some ''TESS_ALL_FP'', object_name = Some ''1.01'',
       disposition = Some ''FALSE POSITIVE'', period = Finite 2, planet_radius = Finite 13,
       star_temp = Finite 5800, star_radius = Finite 1, star_mass = Finite 1,
       discovery_facility = None\<rparr>,
      \<lparr>mission = Some ''TESS'', object_name = Some ''1.01'',
       disposition = Some ''CONFIRMED'', period = Finite 2, planet_radius = Finite 13,
       star_temp = Finite 5800, star_radius = Finite 1, star_mass = Finite 1,
       discovery_facility = None\<rparr>]).
      object_name k = Some ''1.01'' \<and> disposition k = Some ''CONFIRMED'') \<and>
   smart_deduplication
     [\<lparr>mission = Some ''TESS_ALL_FP'', object_name = Some ''1.01'',
       disposition = Some ''FALSE POSITIVE'', period = Finite 2, planet_radius = Finite 13,
       star_temp = Finite 5800, star_radius = Finite 1, star_mass = Finite 1,
       discovery_facility = None\<rparr>,
      \<lparr>mission = Some ''TESS'', object_name = Some ''1.01'',
       disposition = Some ''CONFIRMED'', period = Finite 2, planet_radius = Finite 13,
       star_temp = Finite 5800, star_radius = Finite 1, star_mass = Finite 1,
       discovery_facility = None\<rparr>] =
     [\<lparr>mission = Some ''TESS'', object_name = Some ''1.01'',
       disposition = Some ''CONFIRMED'', period = Finite 2, planet_radius = Finite 13,
       star_temp = Finite 5800, star_radius = Finite 1, star_mass = Finite 1,
       discovery_facility = None\<rparr>]"
proof -
  let ?fp = "\<lparr>mission = Some ''TESS_ALL_FP'', object_name = Some ''1.01'',
       disposition = Some ''FALSE POSITIVE'', period = Finite 2, planet_radius = Finite 13,
       star_temp = Finite 5800, star_radius = Finite 1, star_mass = Finite 1,
       discovery_facility = None\<rparr>"
  let ?cp = "\<lparr>mission = Some ''TESS'', object_name = Some ''1.01'',
       disposition = Some ''CONFIRMED'', period = Finite 2, planet_radius = Finite 13,
       star_temp = Finite 5800, star_radius = Finite 1, star_mass = Finite 1,
       discovery_facility = None\<rparr>"
  let ?out = "smart_deduplication [?fp, ?cp]"
  note t = deduplication_by_object_name [of "[?fp, ?cp]"]
  from t have d: "distinct (map object_name ?out)" by simp
  from t have "\<exists>k\<in>set ?out. object_name k = object_name ?cp \<and>
      priority_key k \<le> priority_key ?cp \<and>
      (disposition ?cp = Some ''CONFIRMED'' \<longrightarrow> disposition k = Some ''CONFIRMED'')"
    by simp
  then have e: "\<exists>k\<in>set ?out. object_name k = Some ''1.01'' \<and>
      disposition k = Some ''CONFIRMED''"
    by auto
  have v: "?out = [?cp]" by code_simp
  from d e v show ?thesis by blast
qed

text \<open>
  Claim C1 as stated fails: the step compares object names as written and never
  normalizes them. A Kepler row K00001.01 and a TESS row 1.01 have the same canonical
  key, and both are kept.
\<close>

theorem deduplication_not_by_canonical_key:
  "length (smart_deduplication
     [\<lparr>mission = Some ''Kepler'', object_name = Some ''K00001.01'',
       disposition = Some ''CANDIDATE'', period = Finite 2, planet_radius = Finite 13,
       star_temp = Finite 5800, star_radius = Finite 1, star_mass = Finite 1,
       discovery_facility = Some ''Kepler''\<rparr>,
      \<lparr>mission = Some ''TESS'', object_name = Some ''1.01'',
       disposition = Some ''CONFIRMED'', period = Finite 2, planet_radius = Finite 13,
       star_temp = Finite 5800, star_radius = Finite 1, star_mass = Finite 1,
       discovery_facility = Some ''TESS''\<rparr>]) = 2 \<and>
   map (\<lambda>r. normalize_object_name (object_name r)) (smart_deduplication
     [\<lparr>mission = Some ''Kepler'', object_name = Some ''K00001.01'',
       disposition = Some ''CANDIDATE'', period = Finite 2, planet_radius = Finite 13,
       star_temp = Finite 5800, star_radius = Finite 1, star_mass = Finite 1,
       discovery_facility = Some ''Kepler''\<rparr>,
      \<lparr>mission = Some ''TESS'', object_name = Some ''1.01'',
       disposition = Some ''CONFIRMED'', period = Finite 2, planet_radius = Finite 13,
       star_temp = Finite 5800, star_radius = Finite 1, star_mass = Finite 1,
       discovery_facility = Some ''TESS''\<rparr>]) = [Inr ''1.01'', Inr ''1.01'']"
  by code_simp

section \<open>The TESS codes CP and KP\<close>

lemma tess_mapping_cp: "map_of (disposition_mapping ''TESS'') ''CP'' = Some ''CONFIRMED''"
  by (simp add: disposition_mapping_def)

lemma tess_mapping_kp: "map_of (disposition_mapping ''TESS'') ''KP'' = Some ''CONFIRMED''"
  by (simp add: disposition_mapping_def)

lemma converter_map_kp: "map_fillna disposition_map (Some ''KP'') = Some ''CONFIRMED''"
  by (simp add: map_fillna_def disposition_map_def)

lemma converter_map_cp: "map_fillna disposition_map (Some ''CP'') = Some ''CANDIDATE''"
  by (simp add: map_fillna_def disposition_map_def)

lemma convert_tess_rows:
  assumes "first_missing df [''toi'', ''tfopwg_disp''] = None"
  shows "convert_tess_to_standard df =
     Inr (map (\<lambda>row.
            \<lparr>mission = Some ''TESS'',
             object_name = Some (astype_str (text_at row ''toi'')),
             disposition = map_fillna disposition_map (text_at row ''tfopwg_disp''),
             period = optional_column df ''pl_orbper'' row,
             planet_radius = optional_column df ''pl_rade'' row,
             star_temp = optional_column df ''st_teff'' row,
             star_radius = optional_column df ''st_rad'' row,
             star_mass = optional_column df ''st_mass'' row,
             discovery_facility = Some ''TESS''\<rparr>) (rows df))"
  using assms by (simp add: convert_tess_to_standard_def)

text \<open>
  Claim C2, as amended. \<open>normalize_disposition_extended\<close> for TESS turns a cell whose
  uppercased text is CP or KP into CONFIRMED. \<open>convert_tess_to_standard\<close> turns KP
  into CONFIRMED and CP into CANDIDATE.
\<close>

theorem tess_cp_kp_by_path:
  "(\<forall>i<length cells.
      py_upper (astype_str (cells ! i)) = ''CP'' \<or> py_upper (astype_str (cells ! i)) = ''KP''
      \<longrightarrow> normalize_disposition_extended cells ''TESS'' ! i = Some ''CONFIRMED'') \<and>
   (first_missing df [''toi'', ''tfopwg_disp''] = None \<longrightarrow>
      (\<exists>out. convert_tess_to_standard df = Inr out \<and> length out = length (rows df) \<and>
         (\<forall>i<length (rows df).
            (text_at (rows df ! i) ''tfopwg_disp'' = Some ''KP'' \<longrightarrow>
               disposition (out ! i) = Some ''CONFIRMED'') \<and>
            (text_at (rows df ! i) ''tfopwg_disp'' = Some ''CP'' \<longrightarrow>
               disposition (out ! i) = Some ''CANDIDATE''))))"
proof -
  have ext: "normalize_disposition_extended cells ''TESS'' ! i = Some ''CONFIRMED''"
    if "i < length cells"
      and "py_upper (astype_str (cells ! i)) = ''CP'' \<or>
           py_upper (astype_str (cells ! i)) = ''KP''" for i
    using that
    by (auto simp: normalize_disposition_extended_def map_fillna_def tess_mapping_cp
        tess_mapping_kp)
  have conv: "\<exists>out. convert_tess_to_standard df = Inr out \<and> length out = length (rows df) \<and>
         (\<forall>i<length (rows df).
            (text_at (rows df ! i) ''tfopwg_disp'' = Some ''KP'' \<longrightarrow>
               disposition (out ! i) = Some ''CONFIRMED'') \<and>
            (text_at (rows df ! i) ''tfopwg_disp'' = Some ''CP'' \<longrightarrow>
               disposition (out ! i) = Some ''CANDIDATE''))"
    if "first_missing df [''toi'', ''tfopwg_disp''] = None"
    unfolding convert_tess_rows [OF that]
    by (simp add: converter_map_kp converter_map_cp)
  show ?thesis using ext conv by blast
qed

theorem tess_cp_kp_by_path_witness:
  "normalize_disposition_extended [Some ''cp'', Some ''KP'', None] ''TESS'' ! 0 =
     Some ''CONFIRMED'' \<and>
   normalize_disposition_extended [Some ''cp'', Some ''KP'', None] ''TESS'' ! 1 =
     Some ''CONFIRMED'' \<and>
   (\<exists>out. convert_tess_to_standard
        \<lparr>columns = [''toi'', ''tfopwg_disp''],
         rows = [\<lparr>text_at = (\<lambda>label. if label = ''toi'' then Some ''101.01''
                                   else if label = ''tfopwg_disp'' then Some ''KP'' else None),
                  num_at = (\<lambda>label. NaN)\<rparr>,
                 \<lparr>text_at = (\<lambda>label. if label = ''toi'' then Some ''102.01''
                                   else if label = ''tfopwg_disp'' then Some ''CP'' else None),
                  num_at = (\<lambda>label. NaN)\<rparr>]\<rparr> = Inr out \<and>
      disposition (out ! 0) = Some ''CONFIRMED'' \<and>
      disposition (out ! 1) = Some ''CANDIDATE'')"
proof -
  let ?cells = "[Some ''cp'', Some ''KP'', None]"
  let ?df = "\<lparr>columns = [''toi'', ''tfopwg_disp''],
         rows = [\<lparr>text_at = (\<lambda>label. if label = ''toi'' then Some ''101.01''
                                   else if label = ''tfopwg_disp'' then Some ''KP'' else None),
                  num_at = (\<lambda>label. NaN)\<rparr>,
                 \<lparr>text_at = (\<lambda>label. if label = ''toi'' then Some ''102.01''
                                   else if label = ''tfopwg_disp'' then Some ''CP'' else None),
                  num_at = (\<lambda>label. NaN)\<rparr>]\<rparr>"
  note t = tess_cp_kp_by_path [of ?cells ?df]
  have u0: "py_upper (astype_str (?cells ! 0)) = ''CP''" by code_simp
  have u1: "py_upper (astype_str (?cells ! 1)) = ''KP''" by code_simp
  have m: "first_missing ?df [''toi'', ''tfopwg_disp''] = None"
    by (simp add: first_missing_def)
  from t u0 have a: "normalize_disposition_extended ?cells ''TESS'' ! 0 = Some ''CONFIRMED''"
    by simp
  from t u1 have b: "normalize_disposition_extended ?cells ''TESS'' ! 1 = Some ''CONFIRMED''"
    by simp
  from t m obtain out where o: "convert_tess_to_standard ?df = Inr out"
    and l: "length out = length (rows ?df)"
    and r: "\<forall>i<length (rows ?df).
            (text_at (rows ?df ! i) ''tfopwg_disp'' = Some ''KP'' \<longrightarrow>
               disposition (out ! i) = Some ''CONFIRMED'') \<and>
            (text_at (rows ?df ! i) ''tfopwg_disp'' = Some ''CP'' \<longrightarrow>
               disposition (out ! i) = Some ''CANDIDATE'')"
    by blast
  from r have "disposition (out ! 0) = Some ''CONFIRMED''" by simp
  moreover from r have "disposition (out ! 1) = Some ''CANDIDATE''" by simp
  ultimately show ?thesis using a b o by blast
qed

text \<open>
  Claim C2 as stated fails in the converter: a TESS row with the code CP comes out as
  CANDIDATE.
\<close>

theorem converter_maps_cp_to_candidate:
  "convert_tess_to_standard
     \<lparr>columns = [''toi'', ''tfopwg_disp'', ''pl_orbper''],
      rows = [\<lparr>text_at = (\<lambda>label. if label = ''toi'' then Some ''102.01''
                                else if label = ''tfopwg_disp'' then Some ''CP'' else None),
               num_at = (\<lambda>label. if label = ''pl_orbper'' then Finite 3 else NaN)\<rparr>]\<rparr> =
   Inr [\<lparr>mission = Some ''TESS'', object_name = Some ''102.01'',
         disposition = Some ''CANDIDATE'', period = Finite 3, planet_radius = NaN,
         star_temp = NaN, star_radius = NaN, star_mass = NaN,
         discovery_facility = Some ''TESS''\<rparr>]"
  by (simp add: convert_tess_to_standard_def first_missing_def optional_column_def
      astype_str_def converter_map_cp)

section \<open>Tables without an optional column\<close>

text \<open>
  Claim C9. A Kepler table without the column koi\_period makes the Kepler mapper raise
  \<open>KeyError\<close>, where the claim asks for the unknown marker; the TESS and K2 mappers,
  given tables without pl\_orbper, return rows whose period is unknown.
\<close>

theorem kepler_missing_column_raises:
  "convert_kepler_to_standard
     \<lparr>columns = [''kepoi_name'', ''koi_disposition'', ''koi_prad'', ''koi_steff'',
                 ''koi_srad'', ''koi_smass''],
      rows = [\<lparr>text_at = (\<lambda>label. if label = ''kepoi_name'' then Some ''K00711.03''
                                else if label = ''koi_disposition'' then Some ''CANDIDATE''
                                else None),
               num_at = (\<lambda>label. Finite 1)\<rparr>]\<rparr> =
     Inl (KeyError [''koi_period'']) \<and>
   convert_tess_to_standard
     \<lparr>columns = [''toi'', ''tfopwg_disp'', ''pl_rade'', ''st_teff'', ''st_rad'', ''st_mass''],
      rows = [\<lparr>text_at = (\<lambda>label. if label = ''toi'' then Some ''711.03''
                                else if label = ''tfopwg_disp'' then Some ''PC'' else None),
               num_at = (\<lambda>label. Finite 1)\<rparr>]\<rparr> =
     Inr [\<lparr>mission = Some ''TESS'', object_name = Some ''711.03'',
           disposition = Some ''CANDIDATE'', period = NaN, planet_radius = Finite 1,
           star_temp = Finite 1, star_radius = Finite 1, star_mass = Finite 1,
           discovery_facility = Some ''TESS''\<rparr>] \<and>
   convert_k2_to_standard
     \<lparr>columns = [''epic_name'', ''k2c_disp'', ''pl_rade'', ''st_teff'', ''st_rad'', ''st_mass''],
      rows = [\<lparr>text_at = (\<lambda>label. if label = ''epic_name'' then Some ''EPIC 201367065''
                                else if label = ''k2c_disp'' then Some ''CANDIDATE''
                                else None),
               num_at = (\<lambda>label. Finite 1)\<rparr>]\<rparr> =
     Inr [\<lparr>mission = Some ''K2'', object_name = Some ''EPIC 201367065'',
           disposition = Some ''CANDIDATE'', period = NaN, planet_radius = Finite 1,
           star_temp = Finite 1, star_radius = Finite 1, star_mass = Finite 1,
           discovery_facility = Some ''K2''\<rparr>]"
  by (simp add: convert_kepler_to_standard_def convert_tess_to_standard_def
      convert_k2_to_standard_def first_missing_def optional_column_def astype_str_def
      map_fillna_def disposition_map_def)

text \<open>
  The TESS and K2 mappers return whenever the name and disposition columns are there,
  and fill every absent measurement column with the unknown marker.
\<close>

lemma optional_columns_never_raise:
  "(first_missing df [''toi'', ''tfopwg_disp''] = None \<longrightarrow>
      (\<exists>out. convert_tess_to_standard df = Inr out \<and> length out = length (rows df) \<and>
         (''pl_orbper'' \<notin> set (columns df) \<longrightarrow> list_all (\<lambda>r. period r = NaN) out) \<and>
         (''pl_rade'' \<notin> set (columns df) \<longrightarrow> list_all (\<lambda>r. planet_radius r = NaN) out) \<and>
         (''st_teff'' \<notin> set (columns df) \<longrightarrow> list_all (\<lambda>r. star_temp r = NaN) out) \<and>
         (''st_rad'' \<notin> set (columns df) \<longrightarrow> list_all (\<lambda>r. star_radius r = NaN) out) \<and>
         (''st_mass'' \<notin> set (columns df) \<longrightarrow> list_all (\<lambda>r. star_mass r = NaN) out))) \<and>
   (first_missing df
      [if ''epic_name'' \<in> set (columns df) then ''epic_name'' else ''epic_candname'',
       ''k2c_disp''] = None \<longrightarrow>
      (\<exists>out. convert_k2_to_standard df = Inr out \<and> length out = length (rows df) \<and>
         (''pl_orbper'' \<notin> set (columns df) \<longrightarrow> list_all (\<lambda>r. period r = NaN) out) \<and>
         (''pl_rade'' \<notin> set (columns df) \<longrightarrow> list_all (\<lambda>r. planet_radius r = NaN) out) \<and>
         (''st_teff'' \<notin> set (columns df) \<longrightarrow> list_all (\<lambda>r. star_temp r = NaN) out) \<and>
         (''st_rad'' \<notin> set (columns df) \<longrightarrow> list_all (\<lambda>r. star_radius r = NaN) out) \<and>
         (''st_mass'' \<notin> set (columns df) \<longrightarrow> list_all (\<lambda>r. star_mass r = NaN) out)))"
  by (simp add: convert_tess_to_standard_def convert_k2_to_standard_def Let_def
      optional_column_def list_all_iff)

end
